theory Spec2Isabelle
  imports
    Main
    "HOL-Library.Sublist"
    "HOL-Library.Multiset"
    "HOL-Library.Char_ord"
    "HOL-Library.List_Lexorder"
begin

section \<open>JavaScript values used by the front end\<close>

text \<open>
  Strings are \<open>string\<close>: a list of characters standing for the code units of a
  JavaScript string. \<open>undefined\<close> (an array read out of range, an absent property) is
  \<open>None\<close>. The two locale-dependent built-ins that the list view calls,
  \<open>String.prototype.toLowerCase\<close> and \<open>String.prototype.localeCompare\<close>, belong to the
  JavaScript runtime and not to the repository: the functions that call them take them as
  the parameters \<open>toLowerCase\<close> and \<open>localeCompare\<close>.
\<close>

text \<open>\<open>s.split(c)\<close> for a one-character separator: never the empty array.\<close>

fun split :: "char \<Rightarrow> string \<Rightarrow> string list" where
  "split c [] = [[]]"
| "split c (x # xs) =
     (if x = c then [] # split c xs
      else (case split c xs of [] \<Rightarrow> [[x]] | p # ps \<Rightarrow> (x # p) # ps))"

text \<open>\<open>xs[i]\<close>: a read out of range is \<open>undefined\<close>.\<close>

definition at_index :: "'a list \<Rightarrow> nat \<Rightarrow> 'a option" where
  "at_index xs i = (if i < length xs then Some (xs ! i) else None)"

text \<open>\<open>s.includes(t)\<close>: \<open>t\<close> occurs in \<open>s\<close> as a contiguous run of characters.\<close>

fun starts_with :: "string \<Rightarrow> string \<Rightarrow> bool" where
  "starts_with s [] = True"
| "starts_with [] (y # ys) = False"
| "starts_with (x # xs) (y # ys) = (x = y \<and> starts_with xs ys)"

fun includes_str :: "string \<Rightarrow> string \<Rightarrow> bool" where
  "includes_str [] t = starts_with [] t"
| "includes_str (x # xs) t = (starts_with (x # xs) t \<or> includes_str xs t)"

text \<open>\<open>s.charAt(0)\<close>: the first character as a string, the empty string when there is none.\<close>

definition charAt0 :: "string \<Rightarrow> string" where
  "charAt0 s = take 1 s"

text \<open>
  A JavaScript \<open>Set\<close> keeps its elements in insertion order: it is the list of its
  distinct elements. \<open>Array.from(set)\<close> is that list.
\<close>

definition Set_add :: "'a \<Rightarrow> 'a list \<Rightarrow> 'a list" where
  "Set_add x s = (if x \<in> set s then s else s @ [x])"

definition new_Set :: "'a list \<Rightarrow> 'a list" where
  "new_Set xs = foldl (\<lambda>s x. Set_add x s) [] xs"

definition Set_has :: "'a list \<Rightarrow> 'a \<Rightarrow> bool" where
  "Set_has s x = (x \<in> set s)"

definition Set_delete :: "'a \<Rightarrow> 'a list \<Rightarrow> 'a list" where
  "Set_delete x s = filter (\<lambda>y. y \<noteq> x) s"

definition Array_from :: "'a list \<Rightarrow> 'a list" where
  "Array_from s = s"

text \<open>
  What a member of the \<open>Set\<close> of selected domains can be: a string, \<open>undefined\<close>, or
  \<open>null\<close>.
\<close>

datatype js_value = Undefined | Null | Str string

text \<open>
  \<open>Array.prototype.sort(compare)\<close>: a stable sort (ECMAScript 2019). An element goes
  before the first element that the comparator does not put before it; elements that
  compare equal keep their order.
\<close>

fun insert_sorted :: "('a \<Rightarrow> 'a \<Rightarrow> int) \<Rightarrow> 'a \<Rightarrow> 'a list \<Rightarrow> 'a list" where
  "insert_sorted cmp x [] = [x]"
| "insert_sorted cmp x (y # ys) =
     (if cmp x y \<le> 0 then x # y # ys else y # insert_sorted cmp x ys)"

definition array_sort :: "('a \<Rightarrow> 'a \<Rightarrow> int) \<Rightarrow> 'a list \<Rightarrow> 'a list" where
  "array_sort cmp xs = foldr (insert_sorted cmp) xs []"

section \<open>The user list (pages/Users.tsx)\<close>

record user =
  user_id :: int
  first_name :: string
  last_name :: string
  email :: string
  avatar :: string

text \<open>\<open>user.email.split('@')[1]\<close>, as both \<open>emailDomains\<close> and \<open>filteredUsers\<close> compute it.\<close>

definition email_domain :: "string \<Rightarrow> string option" where
  "email_domain e = at_index (split CHR ''@'' e) 1"

text \<open>The template literal \<open>`${user.first_name} ${user.last_name}`\<close>.\<close>

definition full_name :: "user \<Rightarrow> string" where
  "full_name u = first_name u @ '' '' @ last_name u"

text \<open>
  \<open>emailDomains\<close>: the \<open>forEach\<close> adds \<open>user.email.split('@')[1]\<close> of every user to a
  fresh \<open>Set\<close>, \<open>undefined\<close> included.
\<close>

definition emailDomains :: "user list \<Rightarrow> string option list" where
  "emailDomains users =
     Array_from (foldl (\<lambda>domains u. Set_add (email_domain (email u)) domains) [] users)"

text \<open>\<open>user.email.split('@')[1]\<close> as the value that is looked up in, or added to, a \<open>Set\<close>.\<close>

definition domain_value :: "string option \<Rightarrow> js_value" where
  "domain_value d = (case d of None \<Rightarrow> Undefined | Some s \<Rightarrow> Str s)"

text \<open>The three tests of the \<open>filter\<close> callback.\<close>

definition searchMatch :: "(string \<Rightarrow> string) \<Rightarrow> string \<Rightarrow> user \<Rightarrow> bool" where
  "searchMatch toLowerCase debouncedSearchTerm u =
     (if debouncedSearchTerm \<noteq> []
      then includes_str (toLowerCase (full_name u)) (toLowerCase debouncedSearchTerm) \<or>
           includes_str (toLowerCase (email u)) (toLowerCase debouncedSearchTerm)
      else True)"

definition letterMatch :: "(string \<Rightarrow> string) \<Rightarrow> string \<Rightarrow> user \<Rightarrow> bool" where
  "letterMatch toLowerCase selectedLetter u =
     (if selectedLetter \<noteq> []
      then toLowerCase (charAt0 (first_name u)) = toLowerCase selectedLetter
      else True)"

definition domainMatch :: "js_value list \<Rightarrow> user \<Rightarrow> bool" where
  "domainMatch selectedDomains u =
     (if length selectedDomains > 0
      then Set_has selectedDomains (domain_value (email_domain (email u)))
      else True)"

text \<open>The comparator of the \<open>sort\<close> callback.\<close>

definition name_compare ::
  "(string \<Rightarrow> string) \<Rightarrow> (string \<Rightarrow> string \<Rightarrow> int) \<Rightarrow> string \<Rightarrow> user \<Rightarrow> user \<Rightarrow> int" where
  "name_compare toLowerCase localeCompare sortDirection a b =
     (let nameA = toLowerCase (full_name a); nameB = toLowerCase (full_name b)
      in if sortDirection = ''asc'' then localeCompare nameA nameB
         else localeCompare nameB nameA)"

definition filteredUsers ::
  "(string \<Rightarrow> string) \<Rightarrow> (string \<Rightarrow> string \<Rightarrow> int) \<Rightarrow>
   user list \<Rightarrow> string \<Rightarrow> string \<Rightarrow> js_value list \<Rightarrow> string \<Rightarrow> user list" where
  "filteredUsers toLowerCase localeCompare users debouncedSearchTerm selectedLetter
       selectedDomains sortDirection =
     array_sort (name_compare toLowerCase localeCompare sortDirection)
       (filter (\<lambda>u. searchMatch toLowerCase debouncedSearchTerm u \<and>
                     letterMatch toLowerCase selectedLetter u \<and>
                     domainMatch selectedDomains u) users)"

section \<open>The browser and the API client (utils/api.ts)\<close>

text \<open>
  \<open>localStorage\<close> maps keys to strings; \<open>getItem\<close> of an absent key is \<open>null\<close>
  (\<open>None\<close>). A condition such as \<open>if (token)\<close> on a string or \<open>null\<close> holds when the
  value is a string and not the empty one.
\<close>

type_synonym local_storage = "string \<rightharpoonup> string"

definition getItem :: "local_storage \<Rightarrow> string \<Rightarrow> string option" where
  "getItem ls key = ls key"

definition setItem :: "local_storage \<Rightarrow> string \<Rightarrow> string \<Rightarrow> local_storage" where
  "setItem ls key v = ls(key \<mapsto> v)"

definition removeItem :: "local_storage \<Rightarrow> string \<Rightarrow> local_storage" where
  "removeItem ls key = ls(key := None)"

text \<open>
  The four calls of the API client, with their arguments, and the request configuration
  that the client hands to its request interceptor.
\<close>

datatype api_call =
    Post_login string string
  | Get_users nat
  | Put_user int string string string
  | Delete_user int

record request_config =
  call :: api_call
  headers :: "string \<rightharpoonup> string"

text \<open>\<open>api.interceptors.request.use\<close>: the handler that every request passes through.\<close>

definition request_interceptor :: "local_storage \<Rightarrow> request_config \<Rightarrow> request_config" where
  "request_interceptor ls config =
     (case getItem ls ''token'' of
        None \<Rightarrow> config
      | Some token \<Rightarrow>
          if token \<noteq> []
          then config\<lparr>headers := (headers config)(''Authorization'' \<mapsto> ''Bearer '' @ token)\<rparr>
          else config)"

text \<open>A request of the client, as sent: a request with no header of its own, intercepted.\<close>

definition api_request :: "local_storage \<Rightarrow> api_call \<Rightarrow> request_config" where
  "api_request ls c = request_interceptor ls \<lparr>call = c, headers = Map.empty\<rparr>"

text \<open>
  What awaiting a request gives is not decided by the repository: the external API's
  answer is a parameter of every handler, \<open>Resolved\<close> with the response body or
  \<open>Rejected\<close>. A body is \<open>null\<close>, on which reading a property throws, or an object; of
  the body of the login endpoint the token is read, a string or absent, and of the body of
  the list endpoint the users and the number of pages.
\<close>

datatype 'a promise = Resolved 'a | Rejected

datatype 'a body = No_body | Body 'a

record login_response =
  response_token :: "string option"

record users_response =
  data :: "user list"
  total_pages :: nat

text \<open>\<open>login\<close>: the body on success; any failure is rethrown as \<open>Error('Invalid credentials')\<close>.\<close>

definition login :: "login_response body promise \<Rightarrow> string + login_response body" where
  "login posted =
     (case posted of
        Resolved response_data \<Rightarrow> Inr response_data
      | Rejected \<Rightarrow> Inl ''Invalid credentials'')"

text \<open>
  What a component can do to the world around it: write \<open>localStorage\<close>, send requests
  (kept in the order sent), show toasts and navigate.
\<close>

datatype toast = Toast_success string | Toast_error string

record browser =
  localStorage :: local_storage
  requests :: "request_config list"
  toasts :: "toast list"
  location :: string

definition send :: "api_call \<Rightarrow> 'a browser_scheme \<Rightarrow> 'a browser_scheme" where
  "send c st = st\<lparr>requests := requests st @ [api_request (localStorage st) c]\<rparr>"

definition show_toast :: "toast \<Rightarrow> 'a browser_scheme \<Rightarrow> 'a browser_scheme" where
  "show_toast t st = st\<lparr>toasts := toasts st @ [t]\<rparr>"

text \<open>\<open>handleLogout\<close> of the navigation bar (components/Navbar.tsx).\<close>

definition handleLogout :: "'a browser_scheme \<Rightarrow> 'a browser_scheme" where
  "handleLogout st =
     st\<lparr>localStorage := removeItem (localStorage st) ''token'', location := ''/login''\<rparr>"

section \<open>Routing (App.tsx)\<close>

text \<open>
  Which of the three routes a location matches is decided by the routing library;
  \<open>App_route\<close> gives the element that \<open>App\<close> renders for the route matched.
\<close>

datatype route = Login_route | Users_route | Root_route

datatype element = Login_element | Users_element | Navigate string

definition PrivateRoute :: "local_storage \<Rightarrow> element \<Rightarrow> element" where
  "PrivateRoute ls children =
     (case getItem ls ''token'' of
        None \<Rightarrow> Navigate ''/login''
      | Some token \<Rightarrow> if token \<noteq> [] then children else Navigate ''/login'')"

fun App_route :: "local_storage \<Rightarrow> route \<Rightarrow> element" where
  "App_route ls Login_route = Login_element"
| "App_route ls Users_route = PrivateRoute ls Users_element"
| "App_route ls Root_route = Navigate ''/users''"

section \<open>The login form (pages/Login.tsx)\<close>

text \<open>
  The regular expression \<open>/\S+@\S+\.\S+/\<close> is a sequence of items, each a literal
  character or \<open>\S+\<close>. \<open>test\<close> looks for a match starting at any position; \<open>\S+\<close> takes
  one character that is not white space and then either goes on or hands over to the
  rest of the pattern, which is what backtracking amounts to. Of the characters that a
  \<open>string\<close> here can hold, the code units below 256, \<open>\s\<close> matches the tab, the line
  feed, the vertical tab, the form feed, the carriage return, the space and the
  no-break space.
\<close>

definition is_space :: "char \<Rightarrow> bool" where
  "is_space c = (of_char c \<in> {9, 10, 11, 12, 13, 32, 160 :: nat})"

datatype regex_item = Lit char | Non_space_plus

fun match_here :: "regex_item list \<Rightarrow> string \<Rightarrow> bool" where
  "match_here [] s = True"
| "match_here (Lit c # r) [] = False"
| "match_here (Lit c # r) (x # xs) = (x = c \<and> match_here r xs)"
| "match_here (Non_space_plus # r) [] = False"
| "match_here (Non_space_plus # r) (x # xs) =
     (\<not> is_space x \<and> (match_here (Non_space_plus # r) xs \<or> match_here r xs))"

fun regex_test :: "regex_item list \<Rightarrow> string \<Rightarrow> bool" where
  "regex_test r [] = match_here r []"
| "regex_test r (x # xs) = (match_here r (x # xs) \<or> regex_test r xs)"

definition email_pattern :: "regex_item list" where
  "email_pattern = [Non_space_plus, Lit CHR ''@'', Non_space_plus, Lit CHR ''.'', Non_space_plus]"

record login_page = browser +
  email_input :: string
  password :: string
  isLoading :: bool
  errors_email :: string
  errors_password :: string

text \<open>\<open>validateForm\<close>: sets \<open>errors\<close> and returns \<open>isValid\<close>.\<close>

definition validateForm :: "login_page \<Rightarrow> bool \<times> login_page" where
  "validateForm st =
     (let email_error =
            (if email_input st = [] then ''Email is required''
             else if \<not> regex_test email_pattern (email_input st) then ''Please enter a valid email''
             else []);
          password_error =
            (if password st = [] then ''Password is required''
             else if length (password st) < 4 then ''Password must be at least 4 characters''
             else []);
          isValid =
            (\<not> (email_input st = [] \<or> \<not> regex_test email_pattern (email_input st)) \<and>
             \<not> (password st = [] \<or> length (password st) < 4))
      in (isValid, st\<lparr>errors_email := email_error, errors_password := password_error\<rparr>))"

text \<open>
  \<open>handleSubmit\<close>, with the answer of the login endpoint as \<open>posted\<close>. The request is
  sent only past the validation. The \<open>catch\<close> takes the error that \<open>login\<close> throws and the
  one that reading the token of a \<open>null\<close> body throws; \<open>finally\<close> resets \<open>isLoading\<close> on
  every path that set it.
\<close>

definition login_failed :: "login_page \<Rightarrow> login_page" where
  "login_failed st =
     (show_toast (Toast_error ''Invalid email or password'') st)
       \<lparr>errors_email := ''Invalid email or password'',
        errors_password := ''Invalid email or password''\<rparr>"

definition handleSubmit :: "login_response body promise \<Rightarrow> login_page \<Rightarrow> login_page" where
  "handleSubmit posted st =
     (let (isValid, st1) = validateForm st
      in if \<not> isValid then st1
         else
           (let st2 = send (Post_login (email_input st1) (password st1)) (st1\<lparr>isLoading := True\<rparr>);
                st3 =
                  (case login posted of
                     Inr No_body \<Rightarrow> login_failed st2
                   | Inr (Body response) \<Rightarrow>
                       (case response_token response of
                          Some t \<Rightarrow>
                            if t \<noteq> []
                            then (show_toast (Toast_success ''Login successful!'')
                                    (st2\<lparr>localStorage := setItem (localStorage st2) ''token'' t\<rparr>))
                                 \<lparr>location := ''/users''\<rparr>
                            else show_toast (Toast_error ''Invalid credentials'') st2
                        | None \<Rightarrow> show_toast (Toast_error ''Invalid credentials'') st2)
                   | Inl error \<Rightarrow> login_failed st2)
            in st3\<lparr>isLoading := False\<rparr>))"

section \<open>The user list: state, effects and handlers (pages/Users.tsx)\<close>

text \<open>
  \<open>selectedDomains\<close> is declared a \<open>Set<string>\<close>, but it holds whatever \<open>toggleDomain\<close>
  was called with and whatever the loading effect found in the storage.
\<close>

record users_page = browser +
  users :: "user list"
  loading :: bool
  currentPage :: nat
  totalPages :: nat
  selectedUser :: "user option"
  isEditModalOpen :: bool
  searchTerm :: string
  selectedLetter :: string
  sortDirection :: string
  selectedDomains :: "js_value list"

text \<open>
  \<open>toggleDomain\<close>, called by the button of an option of \<open>emailDomains\<close>, which is a
  string or \<open>undefined\<close>.
\<close>

definition toggleDomain :: "string option \<Rightarrow> users_page \<Rightarrow> users_page" where
  "toggleDomain domain st =
     (let newDomains = new_Set (selectedDomains st);
          newDomains' =
            (if Set_has newDomains (domain_value domain)
             then Set_delete (domain_value domain) newDomains
             else Set_add (domain_value domain) newDomains)
      in st\<lparr>selectedDomains := newDomains'\<rparr>)"

text \<open>
  The object that the saving effect serialises, as it is read back, and the two effects
  that save and load it. \<open>JSON.stringify\<close> and \<open>JSON.parse\<close> belong to the runtime: the
  effects take them as parameters, \<open>JSON_parse\<close> giving \<open>None\<close> where \<open>JSON.parse\<close>
  throws. In the array, a member is a string or \<open>null\<close> (\<open>None\<close>): \<open>JSON.stringify\<close>
  writes \<open>null\<close> for an array element that is \<open>undefined\<close>.
\<close>

record saved_filters =
  saved_selectedLetter :: string
  saved_sortDirection :: string
  saved_selectedDomains :: "string option list"

definition json_element :: "js_value \<Rightarrow> string option" where
  "json_element v = (case v of Str s \<Rightarrow> Some s | Undefined \<Rightarrow> None | Null \<Rightarrow> None)"

definition parsed_element :: "string option \<Rightarrow> js_value" where
  "parsed_element e = (case e of Some s \<Rightarrow> Str s | None \<Rightarrow> Null)"

definition save_filters :: "(saved_filters \<Rightarrow> string) \<Rightarrow> users_page \<Rightarrow> users_page" where
  "save_filters JSON_stringify st =
     (let savedFilters =
            \<lparr>saved_selectedLetter = selectedLetter st,
             saved_sortDirection = sortDirection st,
             saved_selectedDomains = map json_element (Array_from (selectedDomains st))\<rparr>
      in st\<lparr>localStorage := setItem (localStorage st) ''userFilters'' (JSON_stringify savedFilters)\<rparr>)"

definition load_filters :: "(string \<Rightarrow> saved_filters option) \<Rightarrow> users_page \<Rightarrow> users_page" where
  "load_filters JSON_parse st =
     (case getItem (localStorage st) ''userFilters'' of
        None \<Rightarrow> st
      | Some savedFilters \<Rightarrow>
          if savedFilters \<noteq> []
          then (case JSON_parse savedFilters of
                  None \<Rightarrow> st
                | Some parsed \<Rightarrow>
                    st\<lparr>selectedLetter := saved_selectedLetter parsed,
                       sortDirection := saved_sortDirection parsed,
                       selectedDomains :=
                         new_Set (map parsed_element (saved_selectedDomains parsed))\<rparr>)
          else st)"

text \<open>
  When the component mounts, React runs its effects in the order in which the component
  declares them: the effect that saves the filters, with the state of the first render,
  and then the effect that loads them. (The effect declared before both calls
  \<open>fetchUsers\<close>, which sets its state once the API has answered.)
\<close>

definition mount_effects ::
  "(saved_filters \<Rightarrow> string) \<Rightarrow> (string \<Rightarrow> saved_filters option) \<Rightarrow> users_page \<Rightarrow> users_page" where
  "mount_effects JSON_stringify JSON_parse st =
     load_filters JSON_parse (save_filters JSON_stringify st)"

text \<open>
  \<open>fetchUsers\<close>, with the answer of the list endpoint as \<open>got\<close>. Reading \<open>data\<close> of a
  \<open>null\<close> body throws, which the \<open>catch\<close> takes like a rejection.
\<close>

definition fetchUsers :: "users_response body promise \<Rightarrow> users_page \<Rightarrow> users_page" where
  "fetchUsers got st =
     (let st1 = send (Get_users (currentPage st)) st;
          st2 =
            (case got of
               Resolved (Body response) \<Rightarrow>
                 st1\<lparr>users := data response, totalPages := total_pages response\<rparr>
             | Resolved No_body \<Rightarrow> show_toast (Toast_error ''Failed to fetch users'') st1
             | Rejected \<Rightarrow> show_toast (Toast_error ''Failed to fetch users'') st1)
      in st2\<lparr>loading := False\<rparr>)"

definition handleEdit :: "user \<Rightarrow> users_page \<Rightarrow> users_page" where
  "handleEdit u st = st\<lparr>selectedUser := Some u, isEditModalOpen := True\<rparr>"

text \<open>\<open>handleDelete\<close>, with the answer of the delete endpoint as \<open>deleted\<close>.\<close>

definition handleDelete :: "int \<Rightarrow> unit promise \<Rightarrow> users_page \<Rightarrow> users_page" where
  "handleDelete userId deleted st =
     (let st1 = send (Delete_user userId) st
      in case deleted of
           Resolved _ \<Rightarrow>
             show_toast (Toast_success ''User deleted successfully'')
               (st1\<lparr>users := filter (\<lambda>u. user_id u \<noteq> userId) (users st1)\<rparr>)
         | Rejected \<Rightarrow> show_toast (Toast_error ''Failed to delete user'') st1)"

text \<open>
  \<open>handleUpdate\<close>, with the answer of the update endpoint as \<open>updated\<close>; the response
  body is not read.
\<close>

definition handleUpdate :: "unit promise \<Rightarrow> users_page \<Rightarrow> users_page" where
  "handleUpdate updated st =
     (case selectedUser st of
        None \<Rightarrow> st
      | Some selected \<Rightarrow>
          (let st1 = send (Put_user (user_id selected) (first_name selected) (last_name selected)
                             (email selected)) st
           in case updated of
                Resolved _ \<Rightarrow>
                  show_toast (Toast_success ''User updated successfully'')
                    (st1\<lparr>users := map (\<lambda>u. if user_id u = user_id selected then selected else u)
                                     (users st1),
                         isEditModalOpen := False\<rparr>)
              | Rejected \<Rightarrow> show_toast (Toast_error ''Failed to update user'') st1))"

text \<open>The three inputs of the edit form: \<open>setSelectedUser({...selectedUser, field: value})\<close>.\<close>

definition change_first_name :: "string \<Rightarrow> users_page \<Rightarrow> users_page" where
  "change_first_name v st = st\<lparr>selectedUser := map_option (\<lambda>u. u\<lparr>first_name := v\<rparr>) (selectedUser st)\<rparr>"

definition change_last_name :: "string \<Rightarrow> users_page \<Rightarrow> users_page" where
  "change_last_name v st = st\<lparr>selectedUser := map_option (\<lambda>u. u\<lparr>last_name := v\<rparr>) (selectedUser st)\<rparr>"

definition change_email :: "string \<Rightarrow> users_page \<Rightarrow> users_page" where
  "change_email v st = st\<lparr>selectedUser := map_option (\<lambda>u. u\<lparr>email := v\<rparr>) (selectedUser st)\<rparr>"

text \<open>The component as mounted: the initial values of its \<open>useState\<close> calls.\<close>

definition users_page_mounted :: "browser \<Rightarrow> users_page" where
  "users_page_mounted b =
     \<lparr>localStorage = localStorage b, requests = requests b, toasts = toasts b,
      location = location b,
      users = [], loading = True, currentPage = 1, totalPages = 1, selectedUser = None,
      isEditModalOpen = False, searchTerm = [], selectedLetter = [], sortDirection = ''asc'',
      selectedDomains = []\<rparr>"

section \<open>Sessions of the list view\<close>

text \<open>
  The three handlers above are each one run of a handler whose answer comes before
  anything else happens. In a session other events can come between a request and its
  answer. What runs after the \<open>await\<close> then writes the state of that later moment, with
  the values that the handler's closure took from the render in which it was called:
  \<open>handleDelete\<close> filters the \<open>users\<close> of the click, and \<open>handleUpdate\<close> maps the
  \<open>users\<close> of the submission with the \<open>selectedUser\<close> of the submission.
\<close>

definition fetchUsers_answered :: "users_response body promise \<Rightarrow> users_page \<Rightarrow> users_page" where
  "fetchUsers_answered got st =
     (case got of
        Resolved (Body response) \<Rightarrow> st\<lparr>users := data response, totalPages := total_pages response\<rparr>
      | Resolved No_body \<Rightarrow> show_toast (Toast_error ''Failed to fetch users'') st
      | Rejected \<Rightarrow> show_toast (Toast_error ''Failed to fetch users'') st)
     \<lparr>loading := False\<rparr>"

definition handleDelete_answered ::
  "int \<Rightarrow> user list \<Rightarrow> unit promise \<Rightarrow> users_page \<Rightarrow> users_page" where
  "handleDelete_answered userId users_then deleted st =
     (case deleted of
        Resolved _ \<Rightarrow>
          show_toast (Toast_success ''User deleted successfully'')
            (st\<lparr>users := filter (\<lambda>u. user_id u \<noteq> userId) users_then\<rparr>)
      | Rejected \<Rightarrow> show_toast (Toast_error ''Failed to delete user'') st)"

definition handleUpdate_answered ::
  "user \<Rightarrow> user list \<Rightarrow> unit promise \<Rightarrow> users_page \<Rightarrow> users_page" where
  "handleUpdate_answered selected users_then updated st =
     (case updated of
        Resolved _ \<Rightarrow>
          show_toast (Toast_success ''User updated successfully'')
            (st\<lparr>users := map (\<lambda>u. if user_id u = user_id selected then selected else u) users_then,
                isEditModalOpen := False\<rparr>)
      | Rejected \<Rightarrow> show_toast (Toast_error ''Failed to update user'') st)"

text \<open>
  A request that has not been answered yet, with what its handler's closure holds.
\<close>

datatype pending =
    Fetch_pending
  | Delete_pending int "user list"
  | Update_pending user "user list"

fun captured :: "pending \<Rightarrow> user list" where
  "captured Fetch_pending = []"
| "captured (Delete_pending userId users_then) = users_then"
| "captured (Update_pending selected users_then) = users_then"

text \<open>
  A session is the list view, the requests awaiting their answer and, for the record, the
  users that the list-users call has returned so far. Its events are what the person at
  the browser does, the effect that calls \<open>fetchUsers\<close>, and the answers of the API, each
  to the pending request of the given position, which it settles; an answer to a request
  of another kind, or to none, is no event of the program and changes nothing.
\<close>

record session =
  page :: users_page
  awaiting :: "pending list"
  returned :: "user list"

datatype users_event =
    Fetch_effect
  | Page_clicked nat
  | Edit_clicked user
  | First_name_typed string
  | Last_name_typed string
  | Email_typed string
  | Domain_toggled "string option"
  | Update_submitted
  | Delete_clicked int
  | Fetch_answered nat "users_response body promise"
  | Update_answered nat "unit promise"
  | Delete_answered nat "unit promise"

definition settle :: "nat \<Rightarrow> pending list \<Rightarrow> pending list" where
  "settle k ps = take k ps @ drop (Suc k) ps"

fun users_step :: "session \<Rightarrow> users_event \<Rightarrow> session" where
  "users_step s Fetch_effect =
     s\<lparr>page := send (Get_users (currentPage (page s))) (page s),
       awaiting := awaiting s @ [Fetch_pending]\<rparr>"
| "users_step s (Page_clicked n) = s\<lparr>page := (page s)\<lparr>currentPage := n\<rparr>\<rparr>"
| "users_step s (Edit_clicked u) = s\<lparr>page := handleEdit u (page s)\<rparr>"
| "users_step s (First_name_typed v) = s\<lparr>page := change_first_name v (page s)\<rparr>"
| "users_step s (Last_name_typed v) = s\<lparr>page := change_last_name v (page s)\<rparr>"
| "users_step s (Email_typed v) = s\<lparr>page := change_email v (page s)\<rparr>"
| "users_step s (Domain_toggled domain) = s\<lparr>page := toggleDomain domain (page s)\<rparr>"
| "users_step s Update_submitted =
     (case selectedUser (page s) of
        None \<Rightarrow> s
      | Some selected \<Rightarrow>
          s\<lparr>page := send (Put_user (user_id selected) (first_name selected) (last_name selected)
                          (email selected)) (page s),
            awaiting := awaiting s @ [Update_pending selected (users (page s))]\<rparr>)"
| "users_step s (Delete_clicked userId) =
     s\<lparr>page := send (Delete_user userId) (page s),
       awaiting := awaiting s @ [Delete_pending userId (users (page s))]\<rparr>"
| "users_step s (Fetch_answered k got) =
     (case at_index (awaiting s) k of
        Some Fetch_pending \<Rightarrow>
          s\<lparr>page := fetchUsers_answered got (page s),
            awaiting := settle k (awaiting s),
            returned :=
              (case got of Resolved (Body response) \<Rightarrow> returned s @ data response
               | _ \<Rightarrow> returned s)\<rparr>
      | _ \<Rightarrow> s)"
| "users_step s (Update_answered k updated) =
     (case at_index (awaiting s) k of
        Some (Update_pending selected users_then) \<Rightarrow>
          s\<lparr>page := handleUpdate_answered selected users_then updated (page s),
            awaiting := settle k (awaiting s)\<rparr>
      | _ \<Rightarrow> s)"
| "users_step s (Delete_answered k deleted) =
     (case at_index (awaiting s) k of
        Some (Delete_pending userId users_then) \<Rightarrow>
          s\<lparr>page := handleDelete_answered userId users_then deleted (page s),
            awaiting := settle k (awaiting s)\<rparr>
      | _ \<Rightarrow> s)"

definition users_session :: "session \<Rightarrow> users_event list \<Rightarrow> session" where
  "users_session s events = foldl users_step s events"

text \<open>A session begins with the component mounted and nothing asked of the API yet.\<close>

definition session_start :: "users_page \<Rightarrow> session" where
  "session_start st = \<lparr>page = st, awaiting = [], returned = []\<rparr>"

text \<open>The event that saves an edit: the update request answered with success.\<close>

fun edit_saved :: "users_event \<Rightarrow> bool" where
  "edit_saved (Update_answered k (Resolved _)) = True"
| "edit_saved _ = False"

section \<open>Sample values\<close>

text \<open>
  A sample runtime for the examples: lower-casing of the ASCII capitals and comparison by
  code units, where a browser lower-cases by Unicode and compares by its locale's collation.
\<close>

definition sample_toLowerCase :: "string \<Rightarrow> string" where
  "sample_toLowerCase s =
     map (\<lambda>c. if CHR ''A'' \<le> c \<and> c \<le> CHR ''Z'' then char_of (of_char c + (32 :: nat)) else c) s"

definition sample_localeCompare :: "string \<Rightarrow> string \<Rightarrow> int" where
  "sample_localeCompare a b = (if a < b then - 1 else if a = b then 0 else 1)"

text \<open>Records as the external API returns them, three of its first page and one of its second.\<close>

definition george :: user where
  "george = \<lparr>user_id = 1, first_name = ''George'', last_name = ''Bluth'',
     email = ''george.bluth@reqres.in'', avatar = ''https://reqres.in/img/faces/1-image.jpg''\<rparr>"

definition janet :: user where
  "janet = \<lparr>user_id = 2, first_name = ''Janet'', last_name = ''Weaver'',
     email = ''janet.weaver@reqres.in'', avatar = ''https://reqres.in/img/faces/2-image.jpg''\<rparr>"

definition emma :: user where
  "emma = \<lparr>user_id = 3, first_name = ''Emma'', last_name = ''Wong'',
     email = ''emma.wong@reqres.in'', avatar = ''https://reqres.in/img/faces/3-image.jpg''\<rparr>"

definition michael :: user where
  "michael = \<lparr>user_id = 7, first_name = ''Michael'', last_name = ''Lawson'',
     email = ''michael.lawson@reqres.in'', avatar = ''https://reqres.in/img/faces/7-image.jpg''\<rparr>"

text \<open>A browser with nothing stored, and the list view showing the three records.\<close>

definition sample_browser :: browser where
  "sample_browser = \<lparr>localStorage = Map.empty, requests = [], toasts = [], location = ''/users''\<rparr>"

definition sample_page :: users_page where
  "sample_page =
     (users_page_mounted sample_browser)\<lparr>users := [george, janet, emma], loading := False\<rparr>"

text \<open>The list view showing George and a Janet whose address has no \<open>@\<close>.\<close>

definition sample_page_no_at :: users_page where
  "sample_page_no_at =
     (users_page_mounted sample_browser)
       \<lparr>users := [george, janet\<lparr>email := ''janet.weaver''\<rparr>], loading := False\<rparr>"

text \<open>The login form filled in with the credentials that the external API accepts.\<close>

definition sample_login :: login_page where
  "sample_login =
     \<lparr>localStorage = Map.empty, requests = [], toasts = [], location = ''/login'',
      email_input = ''eve.holt@reqres.in'', password = ''cityslicka'', isLoading = False,
      errors_email = [], errors_password = []\<rparr>"

text \<open>
  A sample serialisation for the examples, where a browser writes JSON text: a string is
  written as its length in unary, a \<open>0\<close> and its characters; a member of the array as
  \<open>n\<close> for \<open>null\<close>, or \<open>s\<close> and the string; the object as its two strings followed by the
  members of its array. The text of an object is never empty, and reading gives back what
  was written (\<open>sample_parse_stringify\<close>), which is all that the two effects need of
  \<open>JSON.stringify\<close> and \<open>JSON.parse\<close>.
\<close>

definition write_string :: "string \<Rightarrow> string" where
  "write_string s = replicate (length s) CHR ''1'' @ CHR ''0'' # s"

definition read_string :: "string \<Rightarrow> string \<times> string" where
  "read_string t =
     (let n = length (takeWhile (\<lambda>c. c = CHR ''1'') t)
      in (take n (drop (Suc n) t), drop (Suc n + n) t))"

definition write_element :: "string option \<Rightarrow> string" where
  "write_element e = (case e of None \<Rightarrow> ''n'' | Some s \<Rightarrow> CHR ''s'' # write_string s)"

fun read_elements :: "nat \<Rightarrow> string \<Rightarrow> string option list" where
  "read_elements 0 t = []"
| "read_elements (Suc k) [] = []"
| "read_elements (Suc k) (c # t) =
     (if c = CHR ''n'' then None # read_elements k t
      else (case read_string t of (s, rest) \<Rightarrow> Some s # read_elements k rest))"

definition sample_stringify :: "saved_filters \<Rightarrow> string" where
  "sample_stringify v =
     write_string (saved_selectedLetter v) @ write_string (saved_sortDirection v) @
     concat (map write_element (saved_selectedDomains v))"

definition sample_parse :: "string \<Rightarrow> saved_filters option" where
  "sample_parse t =
     (case read_string t of (letter, rest) \<Rightarrow>
        (case read_string rest of (direction, rest') \<Rightarrow>
           Some \<lparr>saved_selectedLetter = letter, saved_sortDirection = direction,
                 saved_selectedDomains = read_elements (length rest') rest'\<rparr>))"

text \<open>
  The list view with filters chosen, and the component before its first effects on the
  storage that the first one left behind.
\<close>

definition sample_filtered_page :: users_page where
  "sample_filtered_page =
     sample_page\<lparr>selectedLetter := ''E'', sortDirection := ''desc'',
                  selectedDomains := [Str ''reqres.in'']\<rparr>"

definition sample_revisit :: users_page where
  "sample_revisit =
     (users_page_mounted sample_browser)
       \<lparr>localStorage := localStorage (save_filters sample_stringify sample_filtered_page)\<rparr>"

text \<open>
  A session that fetches a page, deletes a user and abandons an edit that the API refused.
\<close>

definition sample_session :: "users_event list" where
  "sample_session =
     [Fetch_effect,
      Fetch_answered 0 (Resolved (Body \<lparr>data = [george, janet, emma], total_pages = 2\<rparr>)),
      Delete_clicked 2,
      Delete_answered 0 (Resolved ()),
      Edit_clicked george,
      First_name_typed ''Georgina'',
      Update_submitted,
      Update_answered 0 Rejected]"

text \<open>A session that fetches a page and types into the edit form, and one that then saves.\<close>

definition sample_typing_session :: "users_event list" where
  "sample_typing_session =
     [Fetch_effect,
      Fetch_answered 0 (Resolved (Body \<lparr>data = [george], total_pages = 1\<rparr>)),
      Edit_clicked george,
      First_name_typed ''Georgina'']"

definition sample_edit_session :: "users_event list" where
  "sample_edit_session = sample_typing_session @ [Update_submitted, Update_answered 0 (Resolved ())]"

text \<open>
  A session in which the answer to a delete comes after the second page has been
  fetched.
\<close>

definition sample_late_answer_session :: "users_event list" where
  "sample_late_answer_session =
     [Fetch_effect,
      Fetch_answered 0 (Resolved (Body \<lparr>data = [george, janet, emma], total_pages = 2\<rparr>)),
      Delete_clicked 2,
      Page_clicked 2,
      Fetch_effect,
      Fetch_answered 1 (Resolved (Body \<lparr>data = [michael], total_pages = 2\<rparr>)),
      Delete_answered 0 (Resolved ())]"

section \<open>Strings, sets and sorting\<close>

lemma starts_with_prefix: "starts_with s t = prefix t s"
  by (induction s t rule: starts_with.induct) auto

lemma includes_str_sublist: "includes_str s t = sublist t s"
  by (induction s) (auto simp: starts_with_prefix sublist_Cons_right)

lemma split_not_Nil: "split c s \<noteq> []"
  by (induction s) (auto split: list.splits)

lemma split_no_separator: "c \<notin> set l \<Longrightarrow> split c l = [l]"
  by (induction l) auto

lemma split_at_separator: "c \<notin> set l \<Longrightarrow> split c (l @ c # r) = l # split c r"
  by (induction l) auto

lemma hd_split: "hd (split c r) = takeWhile (\<lambda>x. x \<noteq> c) r"
  using split_not_Nil[of c] by (induction r) (auto split: list.splits)

text \<open>
  \<open>email.split('@')[1]\<close> is the text after the first \<open>@\<close>, up to the next \<open>@\<close> or the end
  of the address; for an address with one \<open>@\<close> it is all that follows it, and for an
  address with none it is \<open>undefined\<close>.
\<close>

lemma email_domain_first_at:
  "CHR ''@'' \<notin> set l \<Longrightarrow>
   email_domain (l @ CHR ''@'' # r) = Some (takeWhile (\<lambda>x. x \<noteq> CHR ''@'') r)"
  using split_not_Nil[of "CHR ''@''" r] hd_split[of "CHR ''@''" r]
  by (cases "split CHR ''@'' r") (auto simp: email_domain_def at_index_def split_at_separator)

lemma email_domain_after_at:
  "CHR ''@'' \<notin> set l \<Longrightarrow> CHR ''@'' \<notin> set d \<Longrightarrow> email_domain (l @ CHR ''@'' # d) = Some d"
  by (auto simp: email_domain_first_at takeWhile_eq_all_conv)

lemma email_domain_None: "email_domain e = None \<longleftrightarrow> CHR ''@'' \<notin> set e"
proof
  assume none: "email_domain e = None"
  show "CHR ''@'' \<notin> set e"
  proof
    assume "CHR ''@'' \<in> set e"
    then obtain l r where "e = l @ CHR ''@'' # r" "CHR ''@'' \<notin> set l"
      by (auto dest: split_list_first)
    with none show False
      by (simp add: email_domain_first_at)
  qed
next
  assume "CHR ''@'' \<notin> set e"
  then show "email_domain e = None"
    by (simp add: email_domain_def at_index_def split_no_separator)
qed

lemma mset_insert_sorted: "mset (insert_sorted cmp x xs) = add_mset x (mset xs)"
  by (induction xs) auto

lemma mset_array_sort: "mset (array_sort cmp xs) = mset xs"
  unfolding array_sort_def by (induction xs) (auto simp: mset_insert_sorted)

lemma set_insert_sorted: "set (insert_sorted cmp x xs) = insert x (set xs)"
  by (induction xs) auto

text \<open>
  With a comparator that is total and transitive, inserting keeps a sorted array sorted.
\<close>

lemma sorted_insert_sorted:
  assumes total: "\<And>a b. cmp a b \<le> 0 \<or> cmp b a \<le> 0"
    and trans: "\<And>a b c. cmp a b \<le> 0 \<Longrightarrow> cmp b c \<le> 0 \<Longrightarrow> cmp a c \<le> 0"
  shows "sorted_wrt (\<lambda>a b. cmp a b \<le> 0) xs \<Longrightarrow>
         sorted_wrt (\<lambda>a b. cmp a b \<le> 0) (insert_sorted cmp x xs)"
proof (induction xs)
  case Nil
  then show ?case by simp
next
  case (Cons y ys)
  show ?case
  proof (cases "cmp x y \<le> 0")
    case True
    with Cons.prems trans show ?thesis by auto
  next
    case False
    with total have "cmp y x \<le> 0" by blast
    with False Cons show ?thesis by (auto simp: set_insert_sorted)
  qed
qed

lemma sorted_array_sort:
  assumes total: "\<And>a b. cmp a b \<le> 0 \<or> cmp b a \<le> 0"
    and trans: "\<And>a b c. cmp a b \<le> 0 \<Longrightarrow> cmp b c \<le> 0 \<Longrightarrow> cmp a c \<le> 0"
  shows "sorted_wrt (\<lambda>a b. cmp a b \<le> 0) (array_sort cmp xs)"
  unfolding array_sort_def
  by (induction xs) (auto intro: sorted_insert_sorted[OF total trans])

section \<open>The displayed list\<close>

text \<open>
  What the third test of the filter decides, in terms of the address alone: a user passes
  when nothing is selected; or when the text of the address after its first \<open>@\<close>, up to
  its next \<open>@\<close> or its end, is selected; or when the address has no \<open>@\<close> and
  \<open>undefined\<close> is selected.
\<close>

lemma domainMatch_meaning:
  "domainMatch domains u \<longleftrightarrow>
     (domains = [] \<or>
      (\<exists>l r. email u = l @ CHR ''@'' # r \<and> CHR ''@'' \<notin> set l \<and>
             Str (takeWhile (\<lambda>x. x \<noteq> CHR ''@'') r) \<in> set domains) \<or>
      (CHR ''@'' \<notin> set (email u) \<and> Undefined \<in> set domains))"
proof (cases "CHR ''@'' \<in> set (email u)")
  case True
  then obtain l r where e: "email u = l @ CHR ''@'' # r" "CHR ''@'' \<notin> set l"
    by (auto dest: split_list_first)
  then have d: "email_domain (email u) = Some (takeWhile (\<lambda>x. x \<noteq> CHR ''@'') r)"
    by (simp add: email_domain_first_at)
  have same: "takeWhile (\<lambda>x. x \<noteq> CHR ''@'') r' = takeWhile (\<lambda>x. x \<noteq> CHR ''@'') r"
    if "email u = l' @ CHR ''@'' # r'" "CHR ''@'' \<notin> set l'" for l' r'
    using that d email_domain_first_at[of l' r'] by simp
  have "(\<exists>l r. email u = l @ CHR ''@'' # r \<and> CHR ''@'' \<notin> set l \<and>
             Str (takeWhile (\<lambda>x. x \<noteq> CHR ''@'') r) \<in> set domains) \<longleftrightarrow>
        Str (takeWhile (\<lambda>x. x \<noteq> CHR ''@'') r) \<in> set domains"
    (is "?some \<longleftrightarrow> ?one")
  proof
    assume ?some
    then obtain l' r' where "email u = l' @ CHR ''@'' # r'" "CHR ''@'' \<notin> set l'"
      "Str (takeWhile (\<lambda>x. x \<noteq> CHR ''@'') r') \<in> set domains"
      by blast
    then show ?one using same[of l' r'] by simp
  next
    assume ?one
    with e show ?some by blast
  qed
  moreover have "domainMatch domains u \<longleftrightarrow>
      domains = [] \<or> Str (takeWhile (\<lambda>x. x \<noteq> CHR ''@'') r) \<in> set domains"
    using d by (simp add: domainMatch_def Set_has_def domain_value_def)
  ultimately show ?thesis using True by blast
next
  case False
  then have none: "email_domain (email u) = None"
    by (simp add: email_domain_None)
  from False have "\<not> (\<exists>l r. email u = l @ CHR ''@'' # r \<and> CHR ''@'' \<notin> set l \<and>
             Str (takeWhile (\<lambda>x. x \<noteq> CHR ''@'') r) \<in> set domains)"
    by auto
  moreover have "domainMatch domains u \<longleftrightarrow> domains = [] \<or> Undefined \<in> set domains"
    using none by (simp add: domainMatch_def Set_has_def domain_value_def)
  ultimately show ?thesis using False by blast
qed

text \<open>
  The list displayed holds exactly the users of the page (each as often as the page has
  it) that pass the three tests, and is ordered by the lower-cased full name, ascending
  under \<open>'asc'\<close> and descending otherwise, in the order of \<open>localeCompare\<close>, which is
  taken to be total and transitive as a collation is.
\<close>

lemma filteredUsers_filtered_sorted:
  assumes total: "\<And>a b. localeCompare a b \<le> 0 \<or> localeCompare b a \<le> 0"
    and trans: "\<And>a b c. localeCompare a b \<le> 0 \<Longrightarrow> localeCompare b c \<le> 0 \<Longrightarrow>
                  localeCompare a c \<le> 0"
  shows
    "mset (filteredUsers toLowerCase localeCompare us term letter domains direction) =
       filter_mset
         (\<lambda>u. (term = [] \<or>
                sublist (toLowerCase term) (toLowerCase (first_name u @ '' '' @ last_name u)) \<or>
                sublist (toLowerCase term) (toLowerCase (email u))) \<and>
               (letter = [] \<or> toLowerCase (take 1 (first_name u)) = toLowerCase letter) \<and>
               (domains = [] \<or>
                (\<exists>l r. email u = l @ CHR ''@'' # r \<and> CHR ''@'' \<notin> set l \<and>
                       Str (takeWhile (\<lambda>x. x \<noteq> CHR ''@'') r) \<in> set domains) \<or>
                (CHR ''@'' \<notin> set (email u) \<and> Undefined \<in> set domains)))
         (mset us) \<and>
     sorted_wrt (\<lambda>a b. localeCompare (toLowerCase (full_name a)) (toLowerCase (full_name b)) \<le> 0)
       (filteredUsers toLowerCase localeCompare us term letter domains ''asc'') \<and>
     sorted_wrt (\<lambda>a b. localeCompare (toLowerCase (full_name b)) (toLowerCase (full_name a)) \<le> 0)
       (filteredUsers toLowerCase localeCompare us term letter domains ''desc'')"
proof (intro conjI)
  have test: "searchMatch toLowerCase term u \<and> letterMatch toLowerCase letter u \<and>
        domainMatch domains u \<longleftrightarrow>
      (term = [] \<or>
       sublist (toLowerCase term) (toLowerCase (first_name u @ '' '' @ last_name u)) \<or>
       sublist (toLowerCase term) (toLowerCase (email u))) \<and>
      (letter = [] \<or> toLowerCase (take 1 (first_name u)) = toLowerCase letter) \<and>
      (domains = [] \<or>
       (\<exists>l r. email u = l @ CHR ''@'' # r \<and> CHR ''@'' \<notin> set l \<and>
              Str (takeWhile (\<lambda>x. x \<noteq> CHR ''@'') r) \<in> set domains) \<or>
       (CHR ''@'' \<notin> set (email u) \<and> Undefined \<in> set domains))" for u
    unfolding domainMatch_meaning
    by (simp add: searchMatch_def letterMatch_def includes_str_sublist full_name_def charAt0_def)
  show "mset (filteredUsers toLowerCase localeCompare us term letter domains direction) =
       filter_mset
         (\<lambda>u. (term = [] \<or>
                sublist (toLowerCase term) (toLowerCase (first_name u @ '' '' @ last_name u)) \<or>
                sublist (toLowerCase term) (toLowerCase (email u))) \<and>
               (letter = [] \<or> toLowerCase (take 1 (first_name u)) = toLowerCase letter) \<and>
               (domains = [] \<or>
                (\<exists>l r. email u = l @ CHR ''@'' # r \<and> CHR ''@'' \<notin> set l \<and>
                       Str (takeWhile (\<lambda>x. x \<noteq> CHR ''@'') r) \<in> set domains) \<or>
                (CHR ''@'' \<notin> set (email u) \<and> Undefined \<in> set domains)))
         (mset us)"
    unfolding filteredUsers_def mset_array_sort mset_filter
    by (rule filter_mset_cong) (simp_all only: test)
next
  have "sorted_wrt (\<lambda>a b. name_compare toLowerCase localeCompare ''asc'' a b \<le> 0)
          (filteredUsers toLowerCase localeCompare us term letter domains ''asc'')"
    unfolding filteredUsers_def
    by (rule sorted_array_sort) (use total trans in \<open>auto simp: name_compare_def\<close>)
  then show "sorted_wrt
       (\<lambda>a b. localeCompare (toLowerCase (full_name a)) (toLowerCase (full_name b)) \<le> 0)
       (filteredUsers toLowerCase localeCompare us term letter domains ''asc'')"
    by (simp add: name_compare_def)
next
  have "sorted_wrt (\<lambda>a b. name_compare toLowerCase localeCompare ''desc'' a b \<le> 0)
          (filteredUsers toLowerCase localeCompare us term letter domains ''desc'')"
    unfolding filteredUsers_def
    by (rule sorted_array_sort) (use total trans in \<open>auto simp: name_compare_def\<close>)
  then show "sorted_wrt
       (\<lambda>a b. localeCompare (toLowerCase (full_name b)) (toLowerCase (full_name a)) \<le> 0)
       (filteredUsers toLowerCase localeCompare us term letter domains ''desc'')"
    by (simp add: name_compare_def)
qed

lemma filteredUsers_example:
  "filteredUsers sample_toLowerCase sample_localeCompare [george, janet, emma] ''E'' []
     [Str ''reqres.in''] ''asc'' = [emma, george, janet]"
  by code_simp

text \<open>
  C1. The users displayed are to be exactly those that pass the three tests, the third
  being that the domain of the user's email, the substring after the \<open>@\<close>, is one of the
  selected domains. On the page with George and a Janet whose address is
  \<open>janet.weaver\<close>, \<open>undefined\<close> is among the options; the button of that option calls
  \<open>toggleDomain(undefined)\<close>, after which \<open>selectedDomains\<close> holds \<open>undefined\<close> and the
  list displayed is Janet alone, whose address has no \<open>@\<close> and so no domain that could
  be among the selected ones.
\<close>

theorem undefined_domain_selected:
  "None \<in> set (emailDomains (users sample_page_no_at)) \<and>
   selectedDomains (toggleDomain None sample_page_no_at) = [Undefined] \<and>
   filteredUsers sample_toLowerCase sample_localeCompare (users sample_page_no_at) [] []
     (selectedDomains (toggleDomain None sample_page_no_at)) ''asc'' =
     [janet\<lparr>email := ''janet.weaver''\<rparr>]"
proof -
  have 1: "selectedDomains (toggleDomain None sample_page_no_at) = [Undefined]"
    by (simp add: toggleDomain_def sample_page_no_at_def users_page_mounted_def new_Set_def
        Set_has_def Set_add_def domain_value_def)
  have 2: "users sample_page_no_at = [george, janet\<lparr>email := ''janet.weaver''\<rparr>]"
    by (simp add: sample_page_no_at_def)
  have 3: "filteredUsers sample_toLowerCase sample_localeCompare
      [george, janet\<lparr>email := ''janet.weaver''\<rparr>] [] [] [Undefined] ''asc'' =
     [janet\<lparr>email := ''janet.weaver''\<rparr>]"
    by code_simp
  have 4: "emailDomains [george, janet\<lparr>email := ''janet.weaver''\<rparr>] = [Some ''reqres.in'', None]"
    by code_simp
  from 1 2 3 4 show ?thesis by simp
qed

text \<open>
  An address with a second \<open>@\<close>: the user is displayed under the text between the two,
  which is not all that follows the first.
\<close>

lemma second_at_cuts_domain:
  "filteredUsers sample_toLowerCase sample_localeCompare
      [george\<lparr>email := ''george@bluth@reqres.in''\<rparr>] [] [] [Str ''bluth''] ''asc'' =
     [george\<lparr>email := ''george@bluth@reqres.in''\<rparr>]"
  by code_simp

section \<open>The filter options\<close>

lemma set_foldl_Set_add:
  "set (foldl (\<lambda>s x. Set_add (f x) s) acc xs) = set acc \<union> f ` set xs"
  by (induction xs arbitrary: acc) (auto simp: Set_add_def)

lemma distinct_foldl_Set_add:
  "distinct acc \<Longrightarrow> distinct (foldl (\<lambda>s x. Set_add (f x) s) acc xs)"
  by (induction xs arbitrary: acc) (auto simp: Set_add_def)

lemma foldl_Set_add_distinct:
  "distinct (acc @ xs) \<Longrightarrow> foldl (\<lambda>s x. Set_add x s) acc xs = acc @ xs"
  by (induction xs arbitrary: acc) (auto simp: Set_add_def)

lemma set_new_Set: "set (new_Set xs) = set xs"
  using set_foldl_Set_add[of "\<lambda>x. x" "[]" xs] by (simp add: new_Set_def)

lemma new_Set_distinct: "distinct xs \<Longrightarrow> new_Set xs = xs"
  using foldl_Set_add_distinct[of "[]" xs] by (simp add: new_Set_def)

text \<open>The options are the values of \<open>email.split('@')[1]\<close> over the page, each once.\<close>

lemma set_emailDomains: "set (emailDomains us) = (\<lambda>u. email_domain (email u)) ` set us"
  by (simp add: emailDomains_def Array_from_def set_foldl_Set_add)

lemma distinct_emailDomains: "distinct (emailDomains us)"
  by (simp add: emailDomains_def Array_from_def distinct_foldl_Set_add)

lemma one_separator:
  "count_list (l @ c # d) c = 1 \<longleftrightarrow> c \<notin> set l \<and> c \<notin> set d"
  by (auto simp: count_list_0_iff)

text \<open>
  On a page whose addresses all have exactly one \<open>@\<close>, the options are exactly the
  texts after the \<open>@\<close>.
\<close>

lemma emailDomains_one_at:
  assumes one: "\<forall>u \<in> set us. count_list (email u) CHR ''@'' = 1"
  shows "set (emailDomains us) =
           {Some d | d. \<exists>u \<in> set us. \<exists>l. email u = l @ CHR ''@'' # d}"
proof (intro set_eqI iffI)
  fix x
  assume "x \<in> set (emailDomains us)"
  then obtain u where u: "u \<in> set us" and x: "x = email_domain (email u)"
    by (auto simp: set_emailDomains)
  from one u have "count_list (email u) CHR ''@'' = 1" by blast
  then have "CHR ''@'' \<in> set (email u)"
    by (metis count_list_0_iff zero_neq_one)
  then obtain l d where e: "email u = l @ CHR ''@'' # d"
    by (auto dest: split_list)
  with one u have "CHR ''@'' \<notin> set l \<and> CHR ''@'' \<notin> set d"
    by (metis one_separator)
  with e x have "x = Some d" by (simp add: email_domain_after_at)
  with u e show "x \<in> {Some d | d. \<exists>u \<in> set us. \<exists>l. email u = l @ CHR ''@'' # d}"
    by blast
next
  fix x
  assume "x \<in> {Some d | d. \<exists>u \<in> set us. \<exists>l. email u = l @ CHR ''@'' # d}"
  then obtain u l d where u: "u \<in> set us" and e: "email u = l @ CHR ''@'' # d" and x: "x = Some d"
    by blast
  with one have "CHR ''@'' \<notin> set l \<and> CHR ''@'' \<notin> set d"
    by (metis one_separator)
  with e have "email_domain (email u) = Some d" by (simp add: email_domain_after_at)
  with u x show "x \<in> set (emailDomains us)"
    by (force simp: set_emailDomains)
qed

text \<open>
  C7. The options offered are to be exactly the texts after the \<open>@\<close> of the page's
  addresses. On a page with an address that has no \<open>@\<close>, \<open>emailDomains\<close> also holds
  \<open>undefined\<close>, which is the text after the \<open>@\<close> of no address: here the page is George
  and a Janet whose address is \<open>janet.weaver\<close>.
\<close>

theorem emailDomains_offers_undefined:
  "emailDomains [george, janet\<lparr>email := ''janet.weaver''\<rparr>] = [Some ''reqres.in'', None]"
  by code_simp

section \<open>Deleting and editing\<close>

lemma length_filter_other:
  "distinct (map f xs) \<Longrightarrow> x \<in> f ` set xs \<Longrightarrow>
   length (filter (\<lambda>u. f u \<noteq> x) xs) + 1 = length xs"
proof (induction xs)
  case Nil
  then show ?case by simp
next
  case (Cons y ys)
  show ?case
  proof (cases "f y = x")
    case True
    with Cons.prems have "x \<notin> f ` set ys" by auto
    then have "filter (\<lambda>u. f u \<noteq> x) ys = ys"
      by (auto simp: filter_id_conv)
    with True show ?thesis by simp
  next
    case False
    with Cons show ?thesis by auto
  qed
qed

text \<open>
  C9. After \<open>handleDelete(userId)\<close> whose request succeeded, the local list is the list
  before it without the records whose id is \<open>userId\<close>: the other records are as they
  were and in the order they were. Where the ids of the list are distinct and \<open>userId\<close>
  is one of them, that is exactly one record less.
\<close>

theorem handleDelete_removes:
  "users (handleDelete userId (Resolved ()) st) =
     filter (\<lambda>u. user_id u \<noteq> userId) (users st) \<and>
   (distinct (map user_id (users st)) \<and> userId \<in> user_id ` set (users st) \<longrightarrow>
      length (users (handleDelete userId (Resolved ()) st)) + 1 = length (users st))"
  using length_filter_other[of user_id "users st" userId]
  by (auto simp: handleDelete_def send_def show_toast_def)

text \<open>Deleting Janet from the page of three leaves George and Emma, in that order.\<close>

theorem handleDelete_removes_witness:
  "users (handleDelete 2 (Resolved ()) sample_page) = [george, emma] \<and>
   length (users (handleDelete 2 (Resolved ()) sample_page)) + 1 = length (users sample_page)"
  using handleDelete_removes[of 2 sample_page]
  by (simp add: sample_page_def users_page_mounted_def george_def janet_def emma_def)

text \<open>
  C2, as amended. Both handlers send their request whatever comes of it, and touch the
  local list only when the request succeeded: a delete then leaves the list without the
  records of that id, an edit puts the selected user's record, as edited in the form, in
  the place of every record with its id. When the request is rejected the list stays as
  it was and an error toast is shown. (This is one run of a handler, from the list it
  was called on.)
\<close>

theorem reconcile_after_success:
  "requests (handleDelete userId deleted st) =
     requests st @ [api_request (localStorage st) (Delete_user userId)] \<and>
   users (handleDelete userId deleted st) =
     (case deleted of
        Resolved _ \<Rightarrow> filter (\<lambda>u. user_id u \<noteq> userId) (users st)
      | Rejected \<Rightarrow> users st) \<and>
   toasts (handleDelete userId deleted st) =
     toasts st @
       [case deleted of
          Resolved _ \<Rightarrow> Toast_success ''User deleted successfully''
        | Rejected \<Rightarrow> Toast_error ''Failed to delete user''] \<and>
   requests (handleUpdate updated (st\<lparr>selectedUser := Some selected\<rparr>)) =
     requests st @ [api_request (localStorage st)
        (Put_user (user_id selected) (first_name selected) (last_name selected)
           (email selected))] \<and>
   users (handleUpdate updated (st\<lparr>selectedUser := Some selected\<rparr>)) =
     (case updated of
        Resolved _ \<Rightarrow> map (\<lambda>u. if user_id u = user_id selected then selected else u) (users st)
      | Rejected \<Rightarrow> users st) \<and>
   toasts (handleUpdate updated (st\<lparr>selectedUser := Some selected\<rparr>)) =
     toasts st @
       [case updated of
          Resolved _ \<Rightarrow> Toast_success ''User updated successfully''
        | Rejected \<Rightarrow> Toast_error ''Failed to update user'']"
  by (cases deleted; cases updated)
     (simp_all add: handleDelete_def handleUpdate_def send_def show_toast_def)

text \<open>
  C2 as stated fails: with the delete request rejected, Janet, whose id was to be
  deleted, is still in the list; with the update request rejected, the list does not
  carry the edited record.
\<close>

theorem reconcile_counterexample:
  "user_id janet = 2 \<and>
   janet \<in> set (users (handleDelete 2 Rejected sample_page)) \<and>
   users (handleUpdate Rejected
            (sample_page\<lparr>selectedUser := Some (janet\<lparr>first_name := ''Jane''\<rparr>)\<rparr>)) =
     [george, janet, emma]"
  by (simp add: handleDelete_def handleUpdate_def send_def show_toast_def sample_page_def
      users_page_mounted_def janet_def)

section \<open>Where the records of the list come from\<close>

text \<open>
  A handler whose answer comes before anything else happens is the sending followed by
  what runs after the \<open>await\<close>, with the list of that same moment.
\<close>

lemma handleDelete_phases:
  "handleDelete userId deleted st =
     handleDelete_answered userId (users st) deleted (send (Delete_user userId) st)"
  by (cases deleted) (simp_all add: handleDelete_def handleDelete_answered_def send_def)

lemma handleUpdate_phases:
  "selectedUser st = Some selected \<Longrightarrow>
   handleUpdate updated st =
     handleUpdate_answered selected (users st) updated
       (send (Put_user (user_id selected) (first_name selected) (last_name selected)
          (email selected)) st)"
  by (cases updated) (simp_all add: handleUpdate_def handleUpdate_answered_def send_def)

lemma fetchUsers_phases:
  "fetchUsers got st = fetchUsers_answered got (send (Get_users (currentPage st)) st)"
  by (simp add: fetchUsers_def fetchUsers_answered_def Let_def)

lemma users_session_snoc:
  "users_session s (events @ [e]) = users_step (users_session s events) e"
  by (simp add: users_session_def)

lemma at_index_member: "at_index xs k = Some x \<Longrightarrow> x \<in> set xs"
  by (auto simp: at_index_def split: if_splits)

lemma set_settle: "set (settle k ps) \<subseteq> set ps"
  by (auto simp: settle_def dest: in_set_takeD in_set_dropD)

text \<open>
  As long as no edit is saved, an event keeps the users of the list, and those that the
  pending handlers hold, among the users that the list-users call has returned; and that
  record grows by the answers of the list endpoint only.
\<close>

lemma users_step_sourced:
  assumes s: "set (users (page s)) \<subseteq> set (returned s)"
    and p: "\<forall>p \<in> set (awaiting s). set (captured p) \<subseteq> set (returned s)"
    and e: "\<not> edit_saved e"
  shows "set (users (page (users_step s e))) \<subseteq> set (returned (users_step s e)) \<and>
         (\<forall>p \<in> set (awaiting (users_step s e)). set (captured p) \<subseteq> set (returned (users_step s e)))"
proof (cases e)
  case Fetch_effect
  with s p show ?thesis by (auto simp: send_def)
next
  case (Fetch_answered k got)
  show ?thesis
  proof (cases "at_index (awaiting s) k")
    case None
    with Fetch_answered s p show ?thesis by simp
  next
    case (Some q)
    show ?thesis
    proof (cases q)
      case Fetch_pending
      have "set (settle k (awaiting s)) \<subseteq> set (awaiting s)" by (rule set_settle)
      with Fetch_answered Some Fetch_pending s p show ?thesis
        by (auto simp: fetchUsers_answered_def show_toast_def split: promise.splits body.splits)
    qed (use Fetch_answered Some s p in auto)
  qed
next
  case (Update_answered k updated)
  with e have u: "updated = Rejected" by (cases updated) auto
  show ?thesis
  proof (cases "at_index (awaiting s) k")
    case None
    with Update_answered s p show ?thesis by simp
  next
    case (Some q)
    have "set (settle k (awaiting s)) \<subseteq> set (awaiting s)" by (rule set_settle)
    with Update_answered Some u s p show ?thesis
      by (cases q) (auto simp: handleUpdate_answered_def show_toast_def)
  qed
next
  case (Delete_answered k deleted)
  show ?thesis
  proof (cases "at_index (awaiting s) k")
    case None
    with Delete_answered s p show ?thesis by simp
  next
    case (Some q)
    then have q: "q \<in> set (awaiting s)" by (rule at_index_member)
    have sub: "set (settle k (awaiting s)) \<subseteq> set (awaiting s)" by (rule set_settle)
    show ?thesis
    proof (cases q)
      case (Delete_pending userId users_then)
      with q p have "set users_then \<subseteq> set (returned s)" by force
      with Delete_answered Some Delete_pending sub s p show ?thesis
        by (cases deleted) (auto simp: handleDelete_answered_def show_toast_def)
    qed (use Delete_answered Some s p in auto)
  qed
next
  case Update_submitted
  with s p show ?thesis by (auto simp: send_def split: option.splits)
next
  case (Delete_clicked userId)
  with s p show ?thesis by (auto simp: send_def)
qed (use s p in \<open>auto simp: handleEdit_def change_first_name_def change_last_name_def
       change_email_def toggleDomain_def Let_def\<close>)

lemma users_step_returned:
  "set (returned (users_step s e)) \<subseteq>
     set (returned s) \<union>
     (case e of Fetch_answered k (Resolved (Body response)) \<Rightarrow> set (data response) | _ \<Rightarrow> {})"
  by (cases e) (auto split: option.splits pending.splits promise.splits body.splits)

text \<open>
  C8, as amended. In a session of the list view in which no edit has been saved, every
  record of the local list is, field for field, a record that a list-users call of the
  session returned.
\<close>

theorem users_from_fetch:
  assumes "\<forall>e \<in> set events. \<not> edit_saved e"
  shows "\<forall>u \<in> set (users (page (users_session (session_start (users_page_mounted b)) events))).
           u \<in> set (returned (users_session (session_start (users_page_mounted b)) events)) \<and>
           (\<exists>k response. Fetch_answered k (Resolved (Body response)) \<in> set events \<and>
                         u \<in> set (data response))"
proof -
  let ?s = "\<lambda>events. users_session (session_start (users_page_mounted b)) events"
  have inv: "set (users (page (?s events))) \<subseteq> set (returned (?s events)) \<and>
             (\<forall>p \<in> set (awaiting (?s events)). set (captured p) \<subseteq> set (returned (?s events)))"
    using assms
  proof (induction events rule: rev_induct)
    case Nil
    then show ?case
      by (simp add: users_session_def session_start_def users_page_mounted_def)
  next
    case (snoc e events)
    then have "set (users (page (?s events))) \<subseteq> set (returned (?s events))"
      and "\<forall>p \<in> set (awaiting (?s events)). set (captured p) \<subseteq> set (returned (?s events))"
      and "\<not> edit_saved e"
      by simp_all
    then show ?case
      unfolding users_session_snoc by (rule users_step_sourced)
  qed
  have ret: "\<forall>u \<in> set (returned (?s events)).
               \<exists>k response. Fetch_answered k (Resolved (Body response)) \<in> set events \<and>
                            u \<in> set (data response)"
  proof (induction events rule: rev_induct)
    case Nil
    then show ?case by (simp add: users_session_def session_start_def)
  next
    case (snoc e events)
    show ?case
    proof
      fix u
      assume "u \<in> set (returned (?s (events @ [e])))"
      with users_step_returned[of "?s events" e]
      have "u \<in> set (returned (?s events)) \<or>
            u \<in> (case e of Fetch_answered k (Resolved (Body response)) \<Rightarrow> set (data response)
                  | _ \<Rightarrow> {})"
        by (auto simp: users_session_snoc)
      then show "\<exists>k response. Fetch_answered k (Resolved (Body response)) \<in> set (events @ [e]) \<and>
                              u \<in> set (data response)"
      proof
        assume "u \<in> set (returned (?s events))"
        with snoc obtain k response
          where "Fetch_answered k (Resolved (Body response)) \<in> set events"
            "u \<in> set (data response)"
          by blast
        then have "Fetch_answered k (Resolved (Body response)) \<in> set (events @ [e]) \<and>
            u \<in> set (data response)"
          by simp
        then show ?thesis by blast
      next
        assume "u \<in> (case e of Fetch_answered k (Resolved (Body response)) \<Rightarrow> set (data response)
                  | _ \<Rightarrow> {})"
        then obtain k response where "e = Fetch_answered k (Resolved (Body response))"
          "u \<in> set (data response)"
          by (auto split: users_event.splits promise.splits body.splits)
        then have "Fetch_answered k (Resolved (Body response)) \<in> set (events @ [e]) \<and>
            u \<in> set (data response)"
          by simp
        then show ?thesis by blast
      qed
    qed
  qed
  from inv ret show ?thesis by blast
qed

text \<open>
  After a fetch, a delete and an edit that the API refused, the list holds George and
  Emma as fetched.
\<close>

lemma sample_session_run:
  "users (page (users_session (session_start (users_page_mounted sample_browser)) sample_session)) =
     [george, emma]"
  by (simp add: sample_session_def users_session_def session_start_def users_page_mounted_def
      at_index_def settle_def fetchUsers_answered_def handleDelete_answered_def
      handleUpdate_answered_def handleEdit_def change_first_name_def send_def show_toast_def
      george_def janet_def emma_def)

theorem users_from_fetch_witness:
  "users (page (users_session (session_start (users_page_mounted sample_browser)) sample_session)) =
     [george, emma] \<and>
   (\<exists>k response. Fetch_answered k (Resolved (Body response)) \<in> set sample_session \<and>
                 george \<in> set (data response)) \<and>
   (\<exists>k response. Fetch_answered k (Resolved (Body response)) \<in> set sample_session \<and>
                 emma \<in> set (data response))"
  using users_from_fetch[of sample_session sample_browser] sample_session_run
  by (simp add: sample_session_def)

text \<open>
  C8 as stated fails: once an edit is saved, the list holds the record of the edit
  form, with the first name as typed, which no list-users call returned; and before
  anything is saved, the record under edit in local state already holds what was typed.
\<close>

theorem saved_edit_not_fetched:
  "users (page (users_session (session_start (users_page_mounted sample_browser))
      sample_edit_session)) = [george\<lparr>first_name := ''Georgina''\<rparr>] \<and>
   returned (users_session (session_start (users_page_mounted sample_browser))
      sample_edit_session) = [george] \<and>
   george\<lparr>first_name := ''Georgina''\<rparr> \<noteq> george \<and>
   selectedUser (page (users_session (session_start (users_page_mounted sample_browser))
      sample_typing_session)) = Some (george\<lparr>first_name := ''Georgina''\<rparr>)"
  by (simp add: sample_edit_session_def sample_typing_session_def users_session_def
      session_start_def users_page_mounted_def at_index_def settle_def fetchUsers_answered_def
      handleUpdate_answered_def handleEdit_def change_first_name_def send_def show_toast_def
      george_def)

text \<open>
  The answer to a delete that comes after the next page has been fetched puts the page
  of the click back, without the user deleted: the list shows George and Emma of the
  first page while the second page is the current one.
\<close>

lemma late_answer_overwrites:
  "users (page (users_session (session_start (users_page_mounted sample_browser))
      sample_late_answer_session)) = [george, emma] \<and>
   currentPage (page (users_session (session_start (users_page_mounted sample_browser))
      sample_late_answer_session)) = 2"
  by (simp add: sample_late_answer_session_def users_session_def session_start_def
      users_page_mounted_def at_index_def settle_def fetchUsers_answered_def
      handleDelete_answered_def send_def show_toast_def george_def janet_def emma_def)

section \<open>Filter preferences in browser storage\<close>

lemma takeWhile_ones:
  "takeWhile (\<lambda>c. c = CHR ''1'') (replicate n CHR ''1'' @ CHR ''0'' # r) = replicate n CHR ''1''"
  by (induction n) auto

lemma read_write_string: "read_string (write_string s @ rest) = (s, rest)"
proof -
  have "takeWhile (\<lambda>c. c = CHR ''1'') (write_string s @ rest) = replicate (length s) CHR ''1''"
    unfolding write_string_def
    by (simp add: takeWhile_ones)
  then show ?thesis
    by (simp add: read_string_def write_string_def Let_def)
qed

lemma write_string_not_Nil: "write_string s \<noteq> []"
  by (simp add: write_string_def)

lemma length_concat_write: "length xs \<le> length (concat (map write_element xs))"
  by (induction xs) (auto simp: write_element_def split: option.splits)

lemma read_write_elements:
  "length xs \<le> k \<Longrightarrow> read_elements k (concat (map write_element xs)) = xs"
proof (induction xs arbitrary: k)
  case Nil
  then show ?case by (cases k) auto
next
  case (Cons x xs)
  then obtain k' where "k = Suc k'" "length xs \<le> k'" by (cases k) auto
  with Cons.IH show ?case
    by (cases x) (simp_all add: write_element_def read_write_string)
qed

lemma sample_parse_stringify: "sample_parse (sample_stringify v) = Some v"
  by (simp add: sample_parse_def sample_stringify_def read_write_string read_write_elements
      length_concat_write)

lemma sample_stringify_not_Nil: "sample_stringify v \<noteq> []"
  by (simp add: sample_stringify_def write_string_not_Nil)

text \<open>
  Let \<open>JSON.parse\<close> give back every object that \<open>JSON.stringify\<close> wrote, whose text is
  never empty. The loading effect, run on a storage that the saving effect of a list view
  in state \<open>st\<close> wrote, restores the letter, the direction and the set of domains of
  \<open>st\<close>, provided that \<open>undefined\<close> is not among them.
\<close>

lemma load_after_save:
  assumes parse_stringify: "\<And>v. JSON_parse (JSON_stringify v) = Some v"
    and not_empty: "\<And>v. JSON_stringify v \<noteq> []"
    and stored: "localStorage st' = localStorage (save_filters JSON_stringify st)"
    and defined: "Undefined \<notin> set (selectedDomains st)"
  shows "selectedLetter (load_filters JSON_parse st') = selectedLetter st \<and>
         sortDirection (load_filters JSON_parse st') = sortDirection st \<and>
         set (selectedDomains (load_filters JSON_parse st')) = set (selectedDomains st)"
proof -
  have undo: "parsed_element (json_element v) = v" if "v \<noteq> Undefined" for v
    by (cases v) (use that in \<open>simp_all add: parsed_element_def json_element_def\<close>)
  have "v \<noteq> Undefined" if "v \<in> set (selectedDomains st)" for v
    using that defined by auto
  with undo have "map (parsed_element \<circ> json_element) (selectedDomains st) = selectedDomains st"
    by (intro map_idI) simp
  with parse_stringify not_empty stored show ?thesis
    by (simp add: load_filters_def save_filters_def getItem_def setItem_def Array_from_def
        set_new_Set)
qed

text \<open>
  But the component runs the two effects the other way round of what restoring needs:
  when it mounts, the defaults are saved over whatever the storage held and then loaded.
\<close>

lemma mount_overwrites_saved_filters:
  assumes parse_stringify: "\<And>v. JSON_parse (JSON_stringify v) = Some v"
    and not_empty: "\<And>v. JSON_stringify v \<noteq> []"
  shows "selectedLetter (mount_effects JSON_stringify JSON_parse (users_page_mounted b)) = [] \<and>
         sortDirection (mount_effects JSON_stringify JSON_parse (users_page_mounted b)) = ''asc'' \<and>
         selectedDomains (mount_effects JSON_stringify JSON_parse (users_page_mounted b)) = [] \<and>
         getItem (localStorage (mount_effects JSON_stringify JSON_parse (users_page_mounted b)))
           ''userFilters'' =
           Some (JSON_stringify \<lparr>saved_selectedLetter = [], saved_sortDirection = ''asc'',
                                  saved_selectedDomains = []\<rparr>)"
  using assms
  by (simp add: mount_effects_def load_filters_def save_filters_def getItem_def setItem_def
      Array_from_def users_page_mounted_def new_Set_def)

text \<open>
  C3. The filters stored are to come back as they were. An earlier visit has left the
  letter \<open>E\<close>, the direction \<open>desc\<close> and the domain \<open>reqres.in\<close> in the storage; the
  component mounts on that storage, and after its effects it has no letter, \<open>asc\<close> and
  no domain, and the storage holds these defaults.
\<close>

theorem revisit_loses_filters:
  "getItem (localStorage sample_revisit) ''userFilters'' =
     Some (sample_stringify \<lparr>saved_selectedLetter = ''E'', saved_sortDirection = ''desc'',
                              saved_selectedDomains = [Some ''reqres.in'']\<rparr>) \<and>
   selectedLetter (mount_effects sample_stringify sample_parse sample_revisit) = [] \<and>
   sortDirection (mount_effects sample_stringify sample_parse sample_revisit) = ''asc'' \<and>
   selectedDomains (mount_effects sample_stringify sample_parse sample_revisit) = [] \<and>
   getItem (localStorage (mount_effects sample_stringify sample_parse sample_revisit))
     ''userFilters'' =
     Some (sample_stringify \<lparr>saved_selectedLetter = [], saved_sortDirection = ''asc'',
                              saved_selectedDomains = []\<rparr>)"
  by (simp add: sample_revisit_def sample_filtered_page_def sample_page_def
      users_page_mounted_def mount_effects_def load_filters_def save_filters_def getItem_def
      setItem_def Array_from_def new_Set_def json_element_def sample_parse_stringify
      sample_stringify_not_Nil)

text \<open>
  Saved by itself and loaded, a set that holds \<open>undefined\<close> comes back holding \<open>null\<close>.
\<close>

lemma undefined_saved_as_null:
  "selectedDomains (load_filters sample_parse (save_filters sample_stringify
      (sample_page_no_at\<lparr>selectedDomains := [Undefined]\<rparr>))) = [Null]"
  by (simp add: load_filters_def save_filters_def getItem_def setItem_def Array_from_def
      new_Set_def Set_add_def json_element_def parsed_element_def sample_parse_stringify
      sample_stringify_not_Nil)

section \<open>The bearer token\<close>

text \<open>
  The events of the list view leave \<open>localStorage\<close> alone, and what they send, they send
  through the API client.
\<close>

lemma users_step_localStorage: "localStorage (page (users_step s e)) = localStorage (page s)"
  by (cases e)
     (auto simp: send_def handleEdit_def change_first_name_def change_last_name_def
        change_email_def toggleDomain_def Let_def fetchUsers_answered_def
        handleUpdate_answered_def handleDelete_answered_def show_toast_def
        split: option.splits pending.splits promise.splits body.splits)

lemma users_step_requests:
  "requests (page (users_step s e)) = requests (page s) \<or>
   (\<exists>c. requests (page (users_step s e)) =
          requests (page s) @ [api_request (localStorage (page s)) c])"
  by (cases e)
     (auto simp: send_def handleEdit_def change_first_name_def change_last_name_def
        change_email_def toggleDomain_def Let_def fetchUsers_answered_def
        handleUpdate_answered_def handleDelete_answered_def show_toast_def
        split: option.splits pending.splits promise.splits body.splits)

lemma users_session_localStorage:
  "localStorage (page (users_session s events)) = localStorage (page s)"
  by (induction events rule: rev_induct)
     (simp_all add: users_session_snoc users_step_localStorage, simp add: users_session_def)

lemma users_session_requests:
  "\<forall>r \<in> set (requests (page (users_session (session_start (st\<lparr>requests := []\<rparr>)) events))).
     \<exists>c. r = api_request (localStorage st) c"
proof (induction events rule: rev_induct)
  case Nil
  then show ?case by (simp add: users_session_def session_start_def)
next
  case (snoc e events)
  let ?s = "users_session (session_start (st\<lparr>requests := []\<rparr>)) events"
  have ls: "localStorage (page ?s) = localStorage st"
    by (simp add: users_session_localStorage session_start_def)
  from users_step_requests[of ?s e] snoc ls show ?case
    by (auto simp: users_session_snoc)
qed

lemma api_request_header:
  "getItem ls ''token'' \<noteq> Some [] \<Longrightarrow>
   headers (api_request ls c) ''Authorization'' =
     map_option (\<lambda>token. ''Bearer '' @ token) (getItem ls ''token'')"
  by (auto simp: request_interceptor_def api_request_def split: option.splits)

text \<open>
  What the application writes to \<open>localStorage\<close>: the login form stores a non-empty
  token or nothing, the logout removes the token, and the list view writes its filters
  under another key.
\<close>

lemma handleSubmit_stores_no_empty_token:
  "getItem (localStorage st) ''token'' \<noteq> Some [] \<Longrightarrow>
   getItem (localStorage (handleSubmit posted st)) ''token'' \<noteq> Some []"
  by (cases posted)
     (auto simp: handleSubmit_def validateForm_def login_def login_failed_def send_def
        show_toast_def setItem_def getItem_def Let_def split: option.splits body.splits)

lemma handleLogout_stores_no_token:
  "getItem (localStorage (handleLogout st)) ''token'' = None"
  by (simp add: handleLogout_def removeItem_def getItem_def)

lemma save_filters_keeps_token:
  "getItem (localStorage (save_filters JSON_stringify st)) ''token'' =
   getItem (localStorage st) ''token''"
  by (simp add: save_filters_def setItem_def getItem_def)

lemma load_filters_keeps_storage:
  "localStorage (load_filters JSON_parse st) = localStorage st"
  by (simp add: load_filters_def split: option.splits)

text \<open>
  C4. The token is the string that the login endpoint returned and the login form
  stored, which is never the empty string (\<open>handleSubmit_stores_no_empty_token\<close>). On
  such a storage, when a token is present the interceptor sets the header
  \<open>Authorization\<close> to \<open>Bearer\<close>, a space and the token, so that every request of the API
  client carries it, those of a session of the list view among them; when no token is
  present the interceptor leaves the request as it is, and no request of the client has
  an \<open>Authorization\<close> header.
\<close>

theorem bearer_token_replayed:
  assumes "getItem ls ''token'' \<noteq> Some []"
  shows
    "(getItem ls ''token'' = Some token \<longrightarrow>
        headers (request_interceptor ls config) ''Authorization'' = Some (''Bearer '' @ token) \<and>
        headers (api_request ls c) ''Authorization'' = Some (''Bearer '' @ token) \<and>
        (\<forall>r \<in> set (requests (page (users_session
                  (session_start (st\<lparr>localStorage := ls, requests := []\<rparr>)) events))).
           headers r ''Authorization'' = Some (''Bearer '' @ token))) \<and>
     (getItem ls ''token'' = None \<longrightarrow>
        request_interceptor ls config = config \<and>
        headers (api_request ls c) ''Authorization'' = None \<and>
        (\<forall>r \<in> set (requests (page (users_session
                  (session_start (st\<lparr>localStorage := ls, requests := []\<rparr>)) events))).
           headers r ''Authorization'' = None))"
proof -
  have "\<forall>r \<in> set (requests (page (users_session
                  (session_start (st\<lparr>localStorage := ls, requests := []\<rparr>)) events))).
           \<exists>c. r = api_request ls c"
    using users_session_requests[of "st\<lparr>localStorage := ls\<rparr>" events] by simp
  then have sent: "\<forall>r \<in> set (requests (page (users_session
                  (session_start (st\<lparr>localStorage := ls, requests := []\<rparr>)) events))).
           headers r ''Authorization'' =
             map_option (\<lambda>token. ''Bearer '' @ token) (getItem ls ''token'')"
    using api_request_header[OF assms] by auto
  have one: "headers (api_request ls c) ''Authorization'' =
      map_option (\<lambda>token. ''Bearer '' @ token) (getItem ls ''token'')"
    by (rule api_request_header[OF assms])
  have some: "getItem ls ''token'' = Some token \<longrightarrow>
      headers (request_interceptor ls config) ''Authorization'' = Some (''Bearer '' @ token)"
    using assms by (auto simp: request_interceptor_def)
  have none: "getItem ls ''token'' = None \<longrightarrow> request_interceptor ls config = config"
    by (auto simp: request_interceptor_def)
  from sent one some none show ?thesis by simp
qed

text \<open>
  A stored token is replayed, also on the three requests of the sample session; with an
  empty storage the request is left alone.
\<close>

theorem bearer_token_replayed_witness:
  "headers (request_interceptor (Map.empty(''token'' \<mapsto> ''QpwL5tke4Pnpja7X4''))
      \<lparr>call = Get_users 1, headers = Map.empty\<rparr>) ''Authorization'' =
     Some ''Bearer QpwL5tke4Pnpja7X4'' \<and>
   request_interceptor Map.empty \<lparr>call = Get_users 1, headers = Map.empty\<rparr> =
     \<lparr>call = Get_users 1, headers = Map.empty\<rparr> \<and>
   map (\<lambda>r. headers r ''Authorization'')
     (requests (page (users_session
        (session_start (sample_page\<lparr>localStorage := Map.empty(''token'' \<mapsto> ''QpwL5tke4Pnpja7X4''),
           requests := []\<rparr>))
        sample_session))) =
     [Some ''Bearer QpwL5tke4Pnpja7X4'', Some ''Bearer QpwL5tke4Pnpja7X4'',
      Some ''Bearer QpwL5tke4Pnpja7X4'']"
  using bearer_token_replayed[of "Map.empty(''token'' \<mapsto> ''QpwL5tke4Pnpja7X4'')"
      "''QpwL5tke4Pnpja7X4''" "\<lparr>call = Get_users 1, headers = Map.empty\<rparr>" "Get_users 1"
      sample_page sample_session]
    bearer_token_replayed[of Map.empty "[]" "\<lparr>call = Get_users 1, headers = Map.empty\<rparr>"
      "Get_users 1" sample_page "[]"]
  by (simp add: getItem_def sample_page_def sample_browser_def users_page_mounted_def
      sample_session_def users_session_def session_start_def at_index_def settle_def
      fetchUsers_answered_def handleDelete_answered_def handleUpdate_answered_def
      handleEdit_def change_first_name_def send_def show_toast_def api_request_def
      request_interceptor_def)

section \<open>The protected route\<close>

text \<open>
  C6. On a storage as the application leaves it, where a token is never the empty
  string, the route \<open>/users\<close> redirects to \<open>/login\<close> and does not render the user list
  when no token is present, and renders the list when a token is present.
\<close>

theorem users_route_guarded:
  assumes "getItem ls ''token'' \<noteq> Some []"
  shows "(getItem ls ''token'' = None \<longrightarrow> App_route ls Users_route = Navigate ''/login'') \<and>
         (getItem ls ''token'' = Some token \<longrightarrow> App_route ls Users_route = Users_element)"
  using assms by (auto simp: PrivateRoute_def)

text \<open>With nothing stored the route redirects; with a token stored it renders the list.\<close>

theorem users_route_guarded_witness:
  "App_route Map.empty Users_route = Navigate ''/login'' \<and>
   App_route (Map.empty(''token'' \<mapsto> ''QpwL5tke4Pnpja7X4'')) Users_route = Users_element"
  using users_route_guarded[of Map.empty "[]"]
    users_route_guarded[of "Map.empty(''token'' \<mapsto> ''QpwL5tke4Pnpja7X4'')"
      "''QpwL5tke4Pnpja7X4''"]
  by (simp add: getItem_def)

text \<open>A login that stored a token opens the route, and a logout closes it.\<close>

lemma login_opens_route:
  "fst (validateForm st) \<Longrightarrow> response_token response = Some t \<Longrightarrow> t \<noteq> [] \<Longrightarrow>
   App_route (localStorage (handleSubmit (Resolved (Body response)) st)) Users_route = Users_element"
  by (simp add: handleSubmit_def validateForm_def login_def send_def show_toast_def setItem_def
      PrivateRoute_def getItem_def Let_def)

lemma logout_closes_route:
  "App_route (localStorage (handleLogout st)) Users_route = Navigate ''/login''"
  by (simp add: handleLogout_def removeItem_def PrivateRoute_def getItem_def)

section \<open>The login form\<close>

text \<open>
  What \<open>/\S+@\S+\.\S+/.test(s)\<close> decides: somewhere in \<open>s\<close> there are three non-empty
  runs of characters that are not white space, the first and the second with an \<open>@\<close>
  between them, the second and the third with a dot between them.
\<close>

lemma match_here_Lit:
  "match_here (Lit c # r) s \<longleftrightarrow> (\<exists>t. s = c # t \<and> match_here r t)"
  by (cases s) auto

lemma match_here_Non_space_plus:
  "match_here (Non_space_plus # r) s \<longleftrightarrow>
     (\<exists>a t. s = a @ t \<and> a \<noteq> [] \<and> (\<forall>x \<in> set a. \<not> is_space x) \<and> match_here r t)"
proof (induction s)
  case Nil
  then show ?case by simp
next
  case (Cons x xs)
  show ?case
  proof
    assume "match_here (Non_space_plus # r) (x # xs)"
    then have x: "\<not> is_space x"
      and more: "match_here (Non_space_plus # r) xs \<or> match_here r xs" by auto
    from more
    show "\<exists>a t. x # xs = a @ t \<and> a \<noteq> [] \<and> (\<forall>x \<in> set a. \<not> is_space x) \<and> match_here r t"
    proof
      assume "match_here (Non_space_plus # r) xs"
      with Cons.IH obtain a t
        where "xs = a @ t" "\<forall>x \<in> set a. \<not> is_space x" "match_here r t"
        by blast
      with x have "x # xs = (x # a) @ t \<and> x # a \<noteq> [] \<and>
          (\<forall>y \<in> set (x # a). \<not> is_space y) \<and> match_here r t"
        by simp
      then show ?thesis by blast
    next
      assume "match_here r xs"
      with x have "x # xs = [x] @ xs \<and> [x] \<noteq> [] \<and>
          (\<forall>y \<in> set [x]. \<not> is_space y) \<and> match_here r xs"
        by simp
      then show ?thesis by blast
    qed
  next
    assume "\<exists>a t. x # xs = a @ t \<and> a \<noteq> [] \<and> (\<forall>x \<in> set a. \<not> is_space x) \<and> match_here r t"
    then obtain a t
      where at: "x # xs = a @ t" "a \<noteq> []" "\<forall>x \<in> set a. \<not> is_space x" "match_here r t"
      by blast
    then obtain a' where a: "a = x # a'" "xs = a' @ t" by (cases a) auto
    show "match_here (Non_space_plus # r) (x # xs)"
    proof (cases "a' = []")
      case True
      with a at show ?thesis by simp
    next
      case False
      with a at have "match_here (Non_space_plus # r) xs"
        using Cons.IH by auto
      with a at show ?thesis by simp
    qed
  qed
qed

lemma regex_test_somewhere:
  "regex_test r s \<longleftrightarrow> (\<exists>p t. s = p @ t \<and> match_here r t)"
proof (induction s)
  case Nil
  then show ?case by simp
next
  case (Cons x xs)
  show ?case
  proof
    assume "regex_test r (x # xs)"
    then consider "match_here r (x # xs)" | "regex_test r xs" by auto
    then show "\<exists>p t. x # xs = p @ t \<and> match_here r t"
    proof cases
      case 1
      then have "x # xs = [] @ (x # xs) \<and> match_here r (x # xs)" by simp
      then show ?thesis by blast
    next
      case 2
      with Cons.IH obtain p t where "xs = p @ t" "match_here r t" by blast
      then have "x # xs = (x # p) @ t \<and> match_here r t" by simp
      then show ?thesis by blast
    qed
  next
    assume "\<exists>p t. x # xs = p @ t \<and> match_here r t"
    then obtain p t where pt: "x # xs = p @ t" "match_here r t" by blast
    show "regex_test r (x # xs)"
    proof (cases p)
      case Nil
      with pt have "match_here r (x # xs)" by simp
      then show ?thesis by simp
    next
      case (Cons y p')
      with pt have "xs = p' @ t" by simp
      with pt Cons.IH show ?thesis by auto
    qed
  qed
qed

lemma email_pattern_meaning:
  "regex_test email_pattern s \<longleftrightarrow>
     (\<exists>p a b c q. s = p @ a @ CHR ''@'' # b @ CHR ''.'' # c @ q \<and>
        a \<noteq> [] \<and> b \<noteq> [] \<and> c \<noteq> [] \<and>
        (\<forall>x \<in> set a \<union> set b \<union> set c. \<not> is_space x))"
proof
  assume "regex_test email_pattern s"
  then obtain p t where s: "s = p @ t" and t: "match_here email_pattern t"
    by (auto simp: regex_test_somewhere)
  from t obtain a t1 where a: "t = a @ t1" "a \<noteq> []" "\<forall>x \<in> set a. \<not> is_space x"
    and t1: "match_here [Lit CHR ''@'', Non_space_plus, Lit CHR ''.'', Non_space_plus] t1"
    unfolding email_pattern_def by (subst (asm) match_here_Non_space_plus) blast
  from t1 obtain t2 where t2: "t1 = CHR ''@'' # t2"
    "match_here [Non_space_plus, Lit CHR ''.'', Non_space_plus] t2"
    by (auto simp: match_here_Lit)
  from t2(2) obtain b t3 where b: "t2 = b @ t3" "b \<noteq> []" "\<forall>x \<in> set b. \<not> is_space x"
    and t3: "match_here [Lit CHR ''.'', Non_space_plus] t3"
    by (subst (asm) match_here_Non_space_plus) blast
  from t3 obtain t4 where t4: "t3 = CHR ''.'' # t4" "match_here [Non_space_plus] t4"
    by (auto simp: match_here_Lit)
  from t4(2) obtain c q where c: "t4 = c @ q" "c \<noteq> []" "\<forall>x \<in> set c. \<not> is_space x"
    by (subst (asm) match_here_Non_space_plus) blast
  from s a t2 b t4 c
  have "s = p @ a @ CHR ''@'' # b @ CHR ''.'' # c @ q \<and> a \<noteq> [] \<and> b \<noteq> [] \<and> c \<noteq> [] \<and>
        (\<forall>x \<in> set a \<union> set b \<union> set c. \<not> is_space x)"
    by auto
  then show "\<exists>p a b c q. s = p @ a @ CHR ''@'' # b @ CHR ''.'' # c @ q \<and>
        a \<noteq> [] \<and> b \<noteq> [] \<and> c \<noteq> [] \<and>
        (\<forall>x \<in> set a \<union> set b \<union> set c. \<not> is_space x)"
    by blast
next
  assume "\<exists>p a b c q. s = p @ a @ CHR ''@'' # b @ CHR ''.'' # c @ q \<and>
        a \<noteq> [] \<and> b \<noteq> [] \<and> c \<noteq> [] \<and>
        (\<forall>x \<in> set a \<union> set b \<union> set c. \<not> is_space x)"
  then obtain p a b c q where s: "s = p @ a @ CHR ''@'' # b @ CHR ''.'' # c @ q"
    and a: "a \<noteq> []" "\<forall>x \<in> set a. \<not> is_space x"
    and b: "b \<noteq> []" "\<forall>x \<in> set b. \<not> is_space x"
    and c: "c \<noteq> []" "\<forall>x \<in> set c. \<not> is_space x"
    by auto
  from c have "match_here [Non_space_plus] (c @ q)"
    by (subst match_here_Non_space_plus) auto
  then have "match_here [Lit CHR ''.'', Non_space_plus] (CHR ''.'' # c @ q)"
    by simp
  with b have "match_here [Non_space_plus, Lit CHR ''.'', Non_space_plus] (b @ CHR ''.'' # c @ q)"
    by (subst match_here_Non_space_plus) blast
  then have "match_here [Lit CHR ''@'', Non_space_plus, Lit CHR ''.'', Non_space_plus]
               (CHR ''@'' # b @ CHR ''.'' # c @ q)"
    by simp
  with a have "match_here email_pattern (a @ CHR ''@'' # b @ CHR ''.'' # c @ q)"
    unfolding email_pattern_def by (subst match_here_Non_space_plus) blast
  with s show "regex_test email_pattern s"
    by (auto simp: regex_test_somewhere)
qed

lemma sample_login_valid: "fst (validateForm sample_login)"
  by (simp add: validateForm_def sample_login_def email_pattern_def is_space_def Let_def)

text \<open>
  C10. For every email and password submitted, unless the email is non-empty and
  matches \<open>/\S+@\S+\.\S+/\<close> and the password is non-empty and at least four characters
  long, \<open>handleSubmit\<close> sends no request and writes nothing to \<open>localStorage\<close>: all it
  changes is the two error messages of the form, one of which at least is set.
\<close>

theorem validation_gates_login:
  assumes "\<not> (email_input st \<noteq> [] \<and> regex_test email_pattern (email_input st) \<and>
             password st \<noteq> [] \<and> 4 \<le> length (password st))"
  shows "requests (handleSubmit posted st) = requests st \<and>
         localStorage (handleSubmit posted st) = localStorage st \<and>
         (\<exists>email_error password_error.
            handleSubmit posted st =
              st\<lparr>errors_email := email_error, errors_password := password_error\<rparr> \<and>
            (email_error \<noteq> [] \<or> password_error \<noteq> []))"
  using assms
  by (auto simp: handleSubmit_def validateForm_def Let_def)

text \<open>A password of three characters: nothing is sent and nothing is stored.\<close>

theorem validation_gates_login_witness:
  "requests (handleSubmit (Resolved (Body \<lparr>response_token = Some ''QpwL5tke4Pnpja7X4''\<rparr>))
      (sample_login\<lparr>password := ''abc''\<rparr>)) = [] \<and>
   localStorage (handleSubmit (Resolved (Body \<lparr>response_token = Some ''QpwL5tke4Pnpja7X4''\<rparr>))
      (sample_login\<lparr>password := ''abc''\<rparr>)) = Map.empty"
  using validation_gates_login[of "sample_login\<lparr>password := ''abc''\<rparr>"
      "Resolved (Body \<lparr>response_token = Some ''QpwL5tke4Pnpja7X4''\<rparr>)"]
  by (simp add: sample_login_def)

text \<open>
  C5, as amended. Past the validation, \<open>handleSubmit\<close> posts the email and the password
  entered. When the call succeeds and the response holds a non-empty token, that token
  is written to \<open>localStorage\<close> under \<open>token\<close>. When the call fails, \<open>login\<close> rejects
  with the message \<open>Invalid credentials\<close> and nothing is stored.
\<close>

theorem login_stores_token:
  assumes "fst (validateForm st)"
  shows
    "requests (handleSubmit posted st) =
       requests st @ [api_request (localStorage st) (Post_login (email_input st) (password st))] \<and>
     (posted = Resolved (Body response) \<and> response_token response = Some t \<and> t \<noteq> [] \<longrightarrow>
        localStorage (handleSubmit posted st) = (localStorage st)(''token'' \<mapsto> t)) \<and>
     (posted = Rejected \<longrightarrow>
        login posted = Inl ''Invalid credentials'' \<and>
        localStorage (handleSubmit posted st) = localStorage st)"
proof (cases posted)
  case (Resolved b)
  with assms show ?thesis
    by (cases b)
       (auto simp: handleSubmit_def validateForm_def login_def login_failed_def send_def
          show_toast_def setItem_def Let_def split: option.splits)
next
  case Rejected
  with assms show ?thesis
    by (auto simp: handleSubmit_def validateForm_def login_def login_failed_def send_def
        show_toast_def Let_def)
qed

text \<open>The token of a successful login is stored; a failed login stores nothing.\<close>

theorem login_stores_token_witness:
  "getItem (localStorage (handleSubmit
      (Resolved (Body \<lparr>response_token = Some ''QpwL5tke4Pnpja7X4''\<rparr>)) sample_login)) ''token'' =
     Some ''QpwL5tke4Pnpja7X4'' \<and>
   localStorage (handleSubmit Rejected sample_login) = localStorage sample_login"
  using login_stores_token[OF sample_login_valid,
      of "Resolved (Body \<lparr>response_token = Some ''QpwL5tke4Pnpja7X4''\<rparr>)"
         "\<lparr>response_token = Some ''QpwL5tke4Pnpja7X4''\<rparr>" "''QpwL5tke4Pnpja7X4''"]
    login_stores_token[OF sample_login_valid, of Rejected "\<lparr>response_token = None\<rparr>" "[]"]
  by (simp add: getItem_def)

text \<open>
  C5 as stated fails: the form is valid, the call succeeds and the response holds the
  empty string as its token; no token is written to \<open>localStorage\<close>.
\<close>

theorem empty_token_not_stored:
  "fst (validateForm sample_login) \<and>
   response_token \<lparr>response_token = Some []\<rparr> = Some [] \<and>
   getItem (localStorage (handleSubmit (Resolved (Body \<lparr>response_token = Some []\<rparr>))
      sample_login)) ''token'' = None"
  by (simp add: handleSubmit_def validateForm_def login_def send_def show_toast_def getItem_def
      sample_login_def email_pattern_def is_space_def Let_def)

text \<open>
  A successful answer with a \<open>null\<close> body ends as a failed call does: reading its token
  throws inside the \<open>try\<close>.
\<close>

lemma null_body_is_caught:
  "fst (validateForm st) \<Longrightarrow>
   handleSubmit (Resolved No_body) st = handleSubmit Rejected st"
  by (simp add: handleSubmit_def login_def Let_def split: prod.splits)

end
